theory Spec2Isabelle
  imports Main "HOL-Library.AList" "HOL-Library.Multiset"
begin

section \<open>Errors\<close>

text \<open>
  A Go \<^verbatim>\<open>error\<close> value is modelled as \<open>error option\<close>, \<open>None\<close> being \<^verbatim>\<open>nil\<close>.
  The constructors follow the ways the runner and the collectors build errors.
  \<^item> \<open>New msg\<close>: \<^verbatim>\<open>errors.New(msg)\<close>, or \<^verbatim>\<open>fmt.Errorf\<close> with \<^verbatim>\<open>%s\<close> verbs only;
  \<^item> \<open>Wrap msg e\<close>: \<^verbatim>\<open>fmt.Errorf("msg: %w", e)\<close>;
  \<^item> \<open>OutputFolderExists p\<close>: \<^verbatim>\<open>fmt.Errorf("output folder %q already exists", p)\<close>;
  \<^item> \<open>CreateOutputFolder p e\<close>: \<^verbatim>\<open>fmt.Errorf("failed to create output folder %q: %w", p, e)\<close>;
  \<^item> \<open>Joined es\<close>: the value \<^verbatim>\<open>errors.Join\<close> returns for the non-nil errors \<open>es\<close>;
  \<^item> \<open>LibError what\<close>: an error produced inside a library (the decoder, the URL parser);
    \<open>what\<close> names its origin, the library's message text is not modelled.
\<close>

datatype error =
    New string
  | Wrap string error
  | OutputFolderExists string
  | CreateOutputFolder string error
  | Joined "error list"
  | LibError string

text \<open>
  \<^verbatim>\<open>errors.Join(errs...)\<close>: nil values are discarded; the result is nil when every value
  is nil, and otherwise one error holding the remaining ones in their order.
\<close>

fun non_nil :: "error option list \<Rightarrow> error list" where
  "non_nil [] = []"
| "non_nil (None # errs) = non_nil errs"
| "non_nil (Some e # errs) = e # non_nil errs"

definition errors_Join :: "error option list \<Rightarrow> error option" where
  "errors_Join errs = (if non_nil errs = [] then None else Some (Joined (non_nil errs)))"

text \<open>
  \<open>unwraps_to err e\<close>: the error \<open>e\<close> is \<open>err\<close> itself or is reached from it through
  \<^verbatim>\<open>Unwrap\<close>, which gives the one error an error built with \<^verbatim>\<open>%w\<close> wraps and the list of
  errors a join holds. This is the tree \<^verbatim>\<open>errors.Is\<close> walks.
\<close>

fun unwraps_to :: "error \<Rightarrow> error \<Rightarrow> bool" where
  "unwraps_to (Wrap msg err) e = (Wrap msg err = e \<or> unwraps_to err e)"
| "unwraps_to (CreateOutputFolder p err) e = (CreateOutputFolder p err = e \<or> unwraps_to err e)"
| "unwraps_to (Joined errs) e = (Joined errs = e \<or> list_ex (\<lambda>err. unwraps_to err e) errs)"
| "unwraps_to (New msg) e = (New msg = e)"
| "unwraps_to (OutputFolderExists p) e = (OutputFolderExists p = e)"
| "unwraps_to (LibError what) e = (LibError what = e)"

section \<open>The cleanup step\<close>

text \<open>
  \<^verbatim>\<open>
  var errs []error
  for _, fn := range slices.Backward(r.cleanupFns) {
      errs = append(errs, fn(ctx))
  }
  return errors.Join(errs...)
  \<close>
  A cleanup action is a closure \<^verbatim>\<open>func(context.Context) error\<close>. The model is generic in
  the representation \<open>'f\<close> of the closures and in the state \<open>'s\<close> they act on: \<open>exec fn s\<close>
  runs the closure \<open>fn\<close> in state \<open>s\<close> and gives the error it returns and the state it leaves.
  \<open>cleanup_loop\<close> is the loop over an already reversed list, \<open>errs\<close> the slice it appends to.
\<close>

fun cleanup_loop ::
  "('f \<Rightarrow> 's \<Rightarrow> error option \<times> 's) \<Rightarrow> 'f list \<Rightarrow> error option list \<Rightarrow> 's
    \<Rightarrow> error option list \<times> 's" where
  "cleanup_loop exec [] errs s = (errs, s)"
| "cleanup_loop exec (fn # fns) errs s =
     (case exec fn s of (e, s') \<Rightarrow> cleanup_loop exec fns (errs @ [e]) s')"

definition run_cleanupFns ::
  "('f \<Rightarrow> 's \<Rightarrow> error option \<times> 's) \<Rightarrow> 'f list \<Rightarrow> 's \<Rightarrow> error option \<times> 's" where
  "run_cleanupFns exec fns s =
     (case cleanup_loop exec (rev fns) [] s of (errs, s') \<Rightarrow> (errors_Join errs, s'))"

text \<open>
  A ghost log for stating what was executed: \<open>logged exec\<close> behaves as \<open>exec\<close> on the
  first component of the state and appends to the second component every action it is
  asked to run, together with the error that action returned.
\<close>

definition logged ::
  "('f \<Rightarrow> 's \<Rightarrow> error option \<times> 's) \<Rightarrow> 'f \<Rightarrow> 's \<times> ('f \<times> error option) list
    \<Rightarrow> error option \<times> ('s \<times> ('f \<times> error option) list)" where
  "logged exec fn = (\<lambda>(s, lg). case exec fn s of (e, s') \<Rightarrow> (e, (s', lg @ [(fn, e)])))"

text \<open>
  An example for the cleanup step: three actions, numbered in registration order, acting
  on a counter of the actions run so far; the second one fails.
\<close>

definition example_exec :: "nat \<Rightarrow> nat \<Rightarrow> error option \<times> nat" where
  "example_exec fn n = (if fn = 2 then Some (New ''close failed'') else None, Suc n)"

section \<open>Configuration and the run builder\<close>

text \<open>
  Package \<^verbatim>\<open>config\<close> is not among the sources; its types are taken as the runner uses them.
  Modelled from the spec: the declarations of \<^verbatim>\<open>config.Config\<close>, \<^verbatim>\<open>config.Test\<close> and
  \<^verbatim>\<open>config.ServiceConfig\<close> are missing. The spec's data model calls the infrastructure and
  metrics collections lists; a collection the runner only ranges over is the list of its
  values in the order \<^verbatim>\<open>range\<close> visits them. \<^verbatim>\<open>Tools\<close> is indexed by tool name in the
  runner (\<^verbatim>\<open>cfg.Tools[tool]\<close>, \<^verbatim>\<open>maps.Keys(cfg.Tools)\<close>), so it is a Go map: a partial
  function from tool names. The collector and step types are left as type parameters.
\<close>

record ServiceConfig =
  DockerCompose :: string

record ('m, 'st) Test =
  Name :: string
  Duration :: int
  Steps :: 'st
  Infrastructure :: "ServiceConfig list"
  Tools :: "string \<rightharpoonup> ServiceConfig"
  Metrics :: "'m list"

record ('m, 'st) Config =
  Infrastructure :: "ServiceConfig list"
  Tools :: "string \<rightharpoonup> ServiceConfig"
  Metrics :: "'m list"
  Tests :: "('m, 'st) Test list"

text \<open>
  What \<^verbatim>\<open>ContainerInspect\<close> returns, as far as the runner reads it: the container's name
  and, of its state, the flags \<^verbatim>\<open>Dead\<close> and \<^verbatim>\<open>Running\<close> and the pointer \<^verbatim>\<open>Health\<close>
  (\<open>None\<close> for nil). The Docker client is the function answering an inspection of a
  container at a time, with an error or a response.
\<close>

record Health =
  Status :: string

record ContainerState =
  Running :: bool
  Dead :: bool
  Health :: "Health option"

record ContainerJSON =
  Name :: string
  State :: ContainerState

type_synonym APIClient = "string \<Rightarrow> nat \<Rightarrow> error + ContainerJSON"

record RunOptions =
  OutPath :: string
  FilterTests :: "string list"
  DockerClient :: APIClient

text \<open>
  \<^verbatim>\<open>testRun\<close>, without its mutable fields \<^verbatim>\<open>cleanupFns\<close>, \<^verbatim>\<open>goroutinePool\<close> and
  \<^verbatim>\<open>goroutinePoolDead\<close>: they are nil in every run \<^verbatim>\<open>buildTestRuns\<close> builds, and live in
  \<open>run_state\<close> below while the run executes.
\<close>

record ('m, 'st) testRun =
  Infrastructure :: "ServiceConfig list"
  Tools :: "ServiceConfig list"
  Metrics :: "'m list"
  Name :: string
  Duration :: int
  Steps :: 'st
  Tool :: string
  OutPath :: string
  DockerClient :: APIClient

text \<open>
  A loop over a Go map visits every key of the map once, in an order that is no part of
  the map: the language leaves it unspecified and the runtime varies it from one loop to
  the next. The order is therefore an input of the model. \<open>range_order m ks\<close>: the list \<open>ks\<close>
  is an order in which a loop over the map \<open>m\<close> may visit its keys.
\<close>

definition range_order :: "('k \<rightharpoonup> 'v) \<Rightarrow> 'k list \<Rightarrow> bool" where
  "range_order m ks \<longleftrightarrow> distinct ks \<and> set ks = dom m"

text \<open>
  \<^verbatim>\<open>
  toolNames := slices.Collect(maps.Keys(cfg.Tools))
  for k := range t.Tools {
      if _, ok := cfg.Tools[k]; !ok { toolNames = append(toolNames, k) }
  }
  \<close>
  \<open>keys\<close> is the sequence \<^verbatim>\<open>maps.Keys(cfg.Tools)\<close> yields, \<open>ks\<close> the keys of \<^verbatim>\<open>t.Tools\<close> in the
  order the \<^verbatim>\<open>range\<close> loop visits them.
\<close>

definition toolNames :: "('m, 'st) Config \<Rightarrow> string list \<Rightarrow> string list \<Rightarrow> string list" where
  "toolNames cfg keys ks =
     foldl (\<lambda>names k. if Config.Tools cfg k = None then names @ [k] else names) keys ks"

text \<open>The \<^verbatim>\<open>tools\<close> slice of one run: the global entry for the tool, then the scenario's.\<close>

definition toolConfigs ::
  "('m, 'st) Config \<Rightarrow> ('m, 'st) Test \<Rightarrow> string \<Rightarrow> ServiceConfig list" where
  "toolConfigs cfg t tool =
     (let tools = [];
          tools = (case Config.Tools cfg tool of
                     Some toolCfg \<Rightarrow> tools @ [toolCfg] | None \<Rightarrow> tools);
          tools = (case Test.Tools t tool of
                     Some toolCfg \<Rightarrow> tools @ [toolCfg] | None \<Rightarrow> tools)
      in tools)"

text \<open>
  \<open>buildTestRuns\<close>, with its loops as folds over the slices they append to. What the
  function takes from outside is a parameter: \<open>now\<close> is
  \<^verbatim>\<open>time.Now().Format("20060102150405")\<close>, \<open>filepath_Join\<close> is \<^verbatim>\<open>filepath.Join\<close>, and, for the
  pass of the outer loop over the scenario of index \<open>i\<close>, \<open>maps_Keys i\<close> is the sequence
  \<^verbatim>\<open>maps.Keys(cfg.Tools)\<close> yields and \<open>range_Tools i\<close> the order in which \<^verbatim>\<open>range t.Tools\<close>
  visits the keys.
\<close>

definition buildTestRuns ::
  "(string \<Rightarrow> string \<Rightarrow> string) \<Rightarrow> string \<Rightarrow> (nat \<Rightarrow> string list) \<Rightarrow> (nat \<Rightarrow> string list)
    \<Rightarrow> ('m, 'st) Config \<Rightarrow> RunOptions \<Rightarrow> ('m, 'st) testRun list" where
  "buildTestRuns filepath_Join now maps_Keys range_Tools cfg opt =
     foldl (\<lambda>runs (i, t).
        let infra = foldl (\<lambda>infra v. infra @ [v]) [] (Config.Infrastructure cfg);
            infra = foldl (\<lambda>infra v. infra @ [v]) infra (Test.Infrastructure t);
            metrics = [] @ Config.Metrics cfg;
            metrics = metrics @ Test.Metrics t
        in foldl (\<lambda>runs tool. runs @
             [\<lparr>testRun.Infrastructure = infra,
               Tools = toolConfigs cfg t tool,
               Metrics = metrics,
               Name = Test.Name t,
               Duration = Test.Duration t,
               Steps = Test.Steps t,
               Tool = tool,
               OutPath = filepath_Join (RunOptions.OutPath opt)
                           (now @ ''_'' @ Test.Name t @ ''_'' @ tool),
               DockerClient = RunOptions.DockerClient opt\<rparr>])
             runs (toolNames cfg (maps_Keys i) (range_Tools i)))
       [] (List.enumerate 0 (Tests cfg))"

text \<open>The run built for scenario \<open>t\<close> and tool name \<open>tool\<close>, for stating the results.\<close>

definition newTestRun ::
  "(string \<Rightarrow> string \<Rightarrow> string) \<Rightarrow> string \<Rightarrow> ('m, 'st) Config \<Rightarrow> RunOptions
    \<Rightarrow> ('m, 'st) Test \<Rightarrow> string \<Rightarrow> ('m, 'st) testRun" where
  "newTestRun filepath_Join now cfg opt t tool =
     \<lparr>testRun.Infrastructure = Config.Infrastructure cfg @ Test.Infrastructure t,
      Tools = toolConfigs cfg t tool,
      Metrics = Config.Metrics cfg @ Test.Metrics t,
      Name = Test.Name t,
      Duration = Test.Duration t,
      Steps = Test.Steps t,
      Tool = tool,
      OutPath = filepath_Join (RunOptions.OutPath opt)
                  (now @ ''_'' @ Test.Name t @ ''_'' @ tool),
      DockerClient = RunOptions.DockerClient opt\<rparr>"

section \<open>The world outside the runner\<close>

text \<open>
  The runner talks to the file system, to the container engine and to its context. Their
  answers are the input of the model, a record of functions; time is a logical clock in
  nanoseconds, as \<^verbatim>\<open>time.Duration\<close> counts, that only waiting advances.
  \<^item> \<open>Stat p\<close>: \<^verbatim>\<open>os.Stat(p)\<close> returns a nil error; \<open>MkdirAll\<close>, \<open>Create\<close>, \<open>Close\<close>: the
    error of \<^verbatim>\<open>os.MkdirAll\<close>, \<^verbatim>\<open>os.Create\<close> and of closing the file created at the path;
  \<^item> \<open>ComposeUp files t\<close>: the time at which \<^verbatim>\<open>dockerutil.ComposeUp\<close>, started in the
    background at time \<open>t\<close>, returns an error; \<open>None\<close> when it never does;
  \<^item> \<open>ComposePs files t\<close>: the error of \<^verbatim>\<open>dockerutil.ComposePs\<close> called at time \<open>t\<close>, or
    \<^verbatim>\<open>strings.Fields\<close> of what it printed;
  \<^item> \<open>ComposeDown files t\<close>: the error of \<^verbatim>\<open>dockerutil.ComposeDown\<close>;
  \<^item> \<open>Done\<close>: the time at which the context is cancelled, \<open>None\<close> when it never is, and
    \<open>Err\<close>: what \<^verbatim>\<open>ctx.Err()\<close> returns from then on;
  \<^item> \<open>filepath_Join\<close>: \<^verbatim>\<open>filepath.Join\<close>.
\<close>

record world =
  Stat :: "string \<Rightarrow> bool"
  MkdirAll :: "string \<Rightarrow> error option"
  Create :: "string \<Rightarrow> error option"
  Close :: "string \<Rightarrow> error option"
  ComposeUp :: "string list \<Rightarrow> nat \<Rightarrow> nat option"
  ComposePs :: "string list \<Rightarrow> nat \<Rightarrow> error + string list"
  ComposeDown :: "string list \<Rightarrow> nat \<Rightarrow> error option"
  Done :: "nat option"
  Err :: error
  filepath_Join :: "string \<Rightarrow> string \<Rightarrow> string"

text \<open>
  How a call ends: it returns an error value, or it panics. The only panic of the runner
  is a nil pointer dereference.
\<close>

datatype outcome = Returned "error option" | Panicked string

text \<open>
  The two closures \<^verbatim>\<open>dockerComposeUpWait\<close> registers:
  \<^verbatim>\<open>func(ctx) error { return f.Close() }\<close> for the log file created at a path, and
  \<^verbatim>\<open>func(ctx) error { ...; return dockerutil.ComposeDown(ctx, {File: files}, ...) }\<close>.
\<close>

datatype cleanupFn = CloseFile string | StopContainers "string list"

text \<open>
  What a run does, in the order it does it (a ghost trace): the two log lines of
  \<^verbatim>\<open>loggerForStep\<close> (\<open>RunningStep\<close> on entry, \<open>StepDone\<close> from the deferred \<^verbatim>\<open>lastLog\<close>),
  the \<^verbatim>\<open>slog.Error("cleanup failed", ...)\<close> line of \<^verbatim>\<open>Run\<close>, the calls to the file system
  and to the container engine, and the waits with their length.
\<close>

datatype event =
    RunningStep string
  | StepDone string "error option"
  | CleanupFailed error
  | Os_Stat string
  | Os_MkdirAll string
  | Os_Create string
  | File_Close string
  | Go_ComposeUp "string list"
  | Call_ComposePs "string list"
  | Call_ComposeDown "string list"
  | Call_ContainerInspect string
  | Waited nat

text \<open>
  The mutable state of a run: the fields \<^verbatim>\<open>cleanupFns\<close> and \<^verbatim>\<open>goroutinePool\<close> of
  \<^verbatim>\<open>testRun\<close> (the pool as the list of the compose-up tasks spawned in it, each with its
  files and its starting time), the clock and the trace.
\<close>

record run_state =
  cleanupFns :: "cleanupFn list"
  goroutinePool :: "(string list \<times> nat) list"
  clock :: nat
  trace :: "event list"

definition Second :: nat where
  "Second = 1000000000"

definition logs :: "event list \<Rightarrow> run_state \<Rightarrow> run_state" where
  "logs evs s = s\<lparr>trace := trace s @ evs\<rparr>"

text \<open>
  \<^verbatim>\<open>select { case <-ctx.Done(): return ctx.Err(); case <-time.After(d): }\<close> entered at time
  \<open>t\<close>: the error returned, if any, and the time at which the statement is left. Where
  both channels become ready at the same instant Go picks either; the model takes the
  timer, unless the context was cancelled before the statement was entered.
\<close>

definition select_Done_After :: "world \<Rightarrow> nat \<Rightarrow> nat \<Rightarrow> error option \<times> nat" where
  "select_Done_After w t d =
     (case Done w of
        None \<Rightarrow> (None, t + d)
      | Some c \<Rightarrow> if c \<le> t \<or> c < t + d then (Some (Err w), max c t) else (None, t + d))"

text \<open>
  \<^verbatim>\<open>r.goroutinePoolDead.Load()\<close>. \<^verbatim>\<open>testRun.Go\<close> stores true in the flag when the function
  it spawned returns an error, and nothing clears it: the flag is set once a compose-up
  task of the pool has failed.
\<close>

definition goroutinePoolDead :: "world \<Rightarrow> run_state \<Rightarrow> bool" where
  "goroutinePoolDead w s =
     list_ex (\<lambda>(files, t0). case ComposeUp w files t0 of
                              None \<Rightarrow> False
                            | Some failed_at \<Rightarrow> failed_at \<le> clock s)
       (goroutinePool s)"

section \<open>Compose-up-and-wait\<close>

text \<open>
  \<^verbatim>\<open>strings.EqualFold(status, "healthy")\<close>. No letter of "healthy" folds to a character
  outside ASCII, so the comparison is equality after mapping A-Z to a-z.
\<close>

definition toLower :: "char \<Rightarrow> char" where
  "toLower c =
     (case map_of (zip ''ABCDEFGHIJKLMNOPQRSTUVWXYZ'' ''abcdefghijklmnopqrstuvwxyz'') c of
        Some l \<Rightarrow> l
      | None \<Rightarrow> c)"

definition EqualFold_healthy :: "string \<Rightarrow> bool" where
  "EqualFold_healthy status = (map toLower status = ''healthy'')"

text \<open>
  The goroutine polling one container (lines 479-504), started at time \<open>t\<close>:
  \<^verbatim>\<open>
  for {
      resp, err := r.DockerClient.ContainerInspect(ctx, c)
      if err != nil { return err }
      switch {
      case resp.State.Dead:
          return fmt.Errorf("container %s is dead", resp.Name)
      case resp.State.Health != nil && strings.EqualFold(resp.State.Health.Status, "healthy"):
          return nil
      case resp.State.Health == nil && resp.State.Running:
          return nil
      }
      logger.Info("Waiting for container status to be healthy", ..., resp.State.Health.Status)
      select { case <-ctx.Done(): return ctx.Err(); case <-time.After(time.Second): }
      continue
  }
  \<close>
  The loop has no bound, so the model takes fuel, one unit per iteration, and is \<open>None\<close>
  when the fuel runs out. The result is how the goroutine ends, when, and what it did.
  The log line after the switch reads \<^verbatim>\<open>resp.State.Health.Status\<close> whatever \<^verbatim>\<open>Health\<close> is:
  with a nil \<^verbatim>\<open>Health\<close> it panics.
\<close>

fun pollContainer ::
  "nat \<Rightarrow> world \<Rightarrow> APIClient \<Rightarrow> string \<Rightarrow> nat \<Rightarrow> (outcome \<times> nat \<times> event list) option" where
  "pollContainer 0 w client c t = None"
| "pollContainer (Suc fuel) w client c t =
     (case client c t of
        Inl err \<Rightarrow> Some (Returned (Some err), t, [Call_ContainerInspect c])
      | Inr resp \<Rightarrow>
          if Dead (State resp) then
            Some (Returned (Some (New (''container '' @ ContainerJSON.Name resp @ '' is dead''))),
                  t, [Call_ContainerInspect c])
          else if (case Health (State resp) of
                     None \<Rightarrow> False
                   | Some h \<Rightarrow> EqualFold_healthy (Status h)) then
            Some (Returned None, t, [Call_ContainerInspect c])
          else if Health (State resp) = None \<and> Running (State resp) then
            Some (Returned None, t, [Call_ContainerInspect c])
          else
            (case Health (State resp) of
               None \<Rightarrow>
                 Some (Panicked ''nil pointer dereference'', t, [Call_ContainerInspect c])
             | Some h \<Rightarrow>
                 (case select_Done_After w t Second of
                    (Some err, t') \<Rightarrow>
                      Some (Returned (Some err), t',
                            [Call_ContainerInspect c, Waited (t' - t)])
                  | (None, t') \<Rightarrow>
                      map_option
                        (\<lambda>(out, t'', evs).
                           (out, t'', [Call_ContainerInspect c, Waited (t' - t)] @ evs))
                        (pollContainer fuel w client c t'))))"

text \<open>
  An answer to an inspection after which the poll waits and inspects again: a response
  that matches no case of the switch and has a health check (so that the log line after
  the switch does not panic).
\<close>

definition not_ready :: "error + ContainerJSON \<Rightarrow> bool" where
  "not_ready answer =
     (case answer of
        Inl err \<Rightarrow> False
      | Inr resp \<Rightarrow>
          \<not> Dead (State resp) \<and>
          (case Health (State resp) of
             None \<Rightarrow> False
           | Some h \<Rightarrow> \<not> EqualFold_healthy (Status h)))"

fun panic_of :: "outcome \<Rightarrow> string option" where
  "panic_of (Panicked p) = Some p"
| "panic_of (Returned e) = None"

fun error_of :: "outcome \<Rightarrow> error option" where
  "error_of (Returned e) = e"
| "error_of (Panicked p) = None"

text \<open>
  The pool \<^verbatim>\<open>pool.New().WithErrors()\<close> is of package conc, which is not among the sources;
  it is taken as the version the runner is built with behaves. A task that returns a
  non-nil error adds it to the pool's error at once, by
  \<^verbatim>\<open>p.errs = errors.Join(p.errs, err)\<close>: the errors are joined one by one, each join
  holding the join before it.
\<close>

definition addErr :: "error option \<Rightarrow> error option \<Rightarrow> error option" where
  "addErr errs err = (case err of None \<Rightarrow> errs | Some e \<Rightarrow> errors_Join [errs, Some e])"

text \<open>
  \<^verbatim>\<open>wg.Wait()\<close>, given how each task of the pool ended, when, and what it did. Wait returns
  when every task has ended: at the latest of their times. A panic of a task is raised
  again by Wait; otherwise Wait returns the pool's error, to which the tasks added theirs
  in the order they ended (tasks ending at the same time are taken in the order they were
  spawned). The events of the tasks, which run concurrently, are listed task after task.
\<close>

definition wg_Wait ::
  "(outcome \<times> nat \<times> event list) list \<Rightarrow> nat \<Rightarrow> outcome \<times> nat \<times> event list" where
  "wg_Wait tasks t0 =
     (let ended = sort_key (\<lambda>(out, t, evs). t) tasks;
          t' = foldl max t0 (map (\<lambda>(out, t, evs). t) tasks);
          evs = concat (map (\<lambda>(out, t, evs). evs) tasks)
      in case List.map_filter (\<lambda>(out, t, evs). panic_of out) ended of
           p # ps \<Rightarrow> (Panicked p, t', evs)
         | [] \<Rightarrow>
             (Returned (foldl addErr None (map (\<lambda>(out, t, evs). error_of out) ended)), t', evs))"

text \<open>
  Lines 477-512: one polling goroutine per container, all started at time \<open>t0\<close>, then
  \<^verbatim>\<open>wg.Wait()\<close>; an error is wrapped. \<open>None\<close> when a goroutine does not end within the fuel.
\<close>

definition waitContainers ::
  "nat \<Rightarrow> world \<Rightarrow> APIClient \<Rightarrow> string list \<Rightarrow> nat
    \<Rightarrow> (outcome \<times> nat \<times> event list) option" where
  "waitContainers fuel w client containers t0 =
     map_option
       (\<lambda>tasks.
          case wg_Wait tasks t0 of
            (Returned (Some err), t', evs) \<Rightarrow>
              (Returned (Some (Wrap ''failed to start containers'' err)), t', evs)
          | (out, t', evs) \<Rightarrow> (out, t', evs))
       (those (map (\<lambda>c. pollContainer fuel w client c t0) containers))"

text \<open>
  The discovery loop (lines 445-470), \<open>n\<close> the attempts left:
  \<^verbatim>\<open>
  for range 30 {
      select { case <-ctx.Done(): return ctx.Err(); case <-time.After(time.Second): }
      err = dockerutil.ComposePs(...)
      if err != nil { return fmt.Errorf("failed to list containers: %w", err) }
      containers = strings.Fields(buf.String())
      if len(containers) > 0 { break }
  }
  \<close>
  The result is the error returned from inside the loop, or the value of \<^verbatim>\<open>containers\<close>
  after it, with the time and the events so far.
\<close>

fun listContainers ::
  "nat \<Rightarrow> world \<Rightarrow> string list \<Rightarrow> nat \<Rightarrow> event list
    \<Rightarrow> (error + string list) \<times> nat \<times> event list" where
  "listContainers 0 w files t evs = (Inr [], t, evs)"
| "listContainers (Suc n) w files t evs =
     (case select_Done_After w t Second of
        (Some err, t') \<Rightarrow> (Inl err, t', evs @ [Waited (t' - t)])
      | (None, t') \<Rightarrow>
          (case ComposePs w files t' of
             Inl err \<Rightarrow>
               (Inl (Wrap ''failed to list containers'' err), t',
                evs @ [Waited (t' - t), Call_ComposePs files])
           | Inr containers \<Rightarrow>
               if length containers > 0 then
                 (Inr containers, t', evs @ [Waited (t' - t), Call_ComposePs files])
               else
                 listContainers n w files t' (evs @ [Waited (t' - t), Call_ComposePs files])))"

text \<open>
  Lines 414-440 of \<open>dockerComposeUpWait\<close>, once the log file is created: register the
  closing of the file, spawn compose-up in the pool (\<^verbatim>\<open>r.Go\<close>), register compose-down.
\<close>

definition startComposeUp :: "string list \<Rightarrow> string \<Rightarrow> run_state \<Rightarrow> run_state" where
  "startComposeUp dockerComposeFiles logPath s =
     logs [Go_ComposeUp dockerComposeFiles]
       (s\<lparr>cleanupFns := cleanupFns s @ [CloseFile logPath, StopContainers dockerComposeFiles],
          goroutinePool := goroutinePool s @ [(dockerComposeFiles, clock s)]\<rparr>)"

text \<open>
  \<open>dockerComposeUpWait\<close>: create the log file; register and spawn as above; run the
  discovery loop; read the dead flag once; poll the containers found.
\<close>

definition dockerComposeUpWait ::
  "nat \<Rightarrow> world \<Rightarrow> ('m, 'st) testRun \<Rightarrow> string list \<Rightarrow> string \<Rightarrow> run_state
    \<Rightarrow> (outcome \<times> run_state) option" where
  "dockerComposeUpWait fuel w r dockerComposeFiles logPath s0 =
     (let s1 = logs [Os_Create logPath] s0 in
      case Create w logPath of
        Some err \<Rightarrow> Some (Returned (Some (Wrap ''failed to create log file'' err)), s1)
      | None \<Rightarrow>
          let s2 = startComposeUp dockerComposeFiles logPath s1 in
          case listContainers 30 w dockerComposeFiles (clock s2) [] of
            (Inl err, t, evs) \<Rightarrow> Some (Returned (Some err), logs evs (s2\<lparr>clock := t\<rparr>))
          | (Inr containers, t, evs) \<Rightarrow>
              let s3 = logs evs (s2\<lparr>clock := t\<rparr>) in
              if goroutinePoolDead w s3 then
                Some (Returned (Some (New ''failed to start containers'')), s3)
              else
                map_option (\<lambda>(out, t', evs'). (out, logs evs' (s3\<lparr>clock := t'\<rparr>)))
                  (waitContainers fuel w (testRun.DockerClient r) containers (clock s3)))"

section \<open>The steps of a run\<close>

text \<open>
  A step that only logs: \<^verbatim>\<open>loggerForStep(name)\<close>, the deferred \<^verbatim>\<open>lastLog(err)\<close>, and
  \<^verbatim>\<open>return nil\<close>. Nine of the twelve steps are such hooks.
\<close>

definition hook :: "string \<Rightarrow> run_state \<Rightarrow> error option \<times> run_state" where
  "hook name s = (None, logs [RunningStep name, StepDone name None] s)"

definition preInfrastructure :: "run_state \<Rightarrow> error option \<times> run_state" where
  "preInfrastructure = hook ''pre-infrastructure''"

definition postInfrastructure :: "run_state \<Rightarrow> error option \<times> run_state" where
  "postInfrastructure = hook ''post-infrastructure''"

definition preTool :: "run_state \<Rightarrow> error option \<times> run_state" where
  "preTool = hook ''pre-tool''"

definition postTool :: "run_state \<Rightarrow> error option \<times> run_state" where
  "postTool = hook ''post-tool''"

definition preTest :: "run_state \<Rightarrow> error option \<times> run_state" where
  "preTest = hook ''pre-test''"

definition postTest :: "run_state \<Rightarrow> error option \<times> run_state" where
  "postTest = hook ''post-test''"

definition preCleanup :: "run_state \<Rightarrow> error option \<times> run_state" where
  "preCleanup = hook ''pre-cleanup''"

definition postCleanup :: "run_state \<Rightarrow> error option \<times> run_state" where
  "postCleanup = hook ''post-cleanup''"

definition collectDockerComposeFiles :: "ServiceConfig list \<Rightarrow> string list" where
  "collectDockerComposeFiles cfgs = map DockerCompose cfgs"

text \<open>
  The steps \<^verbatim>\<open>infrastructure\<close> and \<^verbatim>\<open>tool\<close> are the same code but for the services they
  start, the name of the log file and the message of the error: \<open>startServices\<close> is that
  code. The deferred \<^verbatim>\<open>lastLog(err)\<close> logs the named result, which is still nil when the
  call of \<^verbatim>\<open>dockerComposeUpWait\<close> panics.
\<close>

definition startServices ::
  "string \<Rightarrow> string \<Rightarrow> string \<Rightarrow> ServiceConfig list \<Rightarrow> nat \<Rightarrow> world \<Rightarrow> ('m, 'st) testRun
    \<Rightarrow> run_state \<Rightarrow> (outcome \<times> run_state) option" where
  "startServices name logName msg cfgs fuel w r s0 =
     (let s1 = logs [RunningStep name] s0;
          paths = collectDockerComposeFiles cfgs
      in if length paths = 0 then Some (Returned None, logs [StepDone name None] s1)
         else
           let logPath = filepath_Join w (testRun.OutPath r) logName in
           case dockerComposeUpWait fuel w r paths logPath s1 of
             None \<Rightarrow> None
           | Some (Returned None, s2) \<Rightarrow> Some (Returned None, logs [StepDone name None] s2)
           | Some (Returned (Some err), s2) \<Rightarrow>
               Some (Returned (Some (Wrap msg err)), logs [StepDone name (Some (Wrap msg err))] s2)
           | Some (Panicked p, s2) \<Rightarrow> Some (Panicked p, logs [StepDone name None] s2))"

definition infrastructure ::
  "nat \<Rightarrow> world \<Rightarrow> ('m, 'st) testRun \<Rightarrow> run_state \<Rightarrow> (outcome \<times> run_state) option" where
  "infrastructure fuel w r s =
     startServices ''infrastructure'' ''infrastructure.log'' ''failed to start infrastructure''
       (testRun.Infrastructure r) fuel w r s"

definition tool ::
  "nat \<Rightarrow> world \<Rightarrow> ('m, 'st) testRun \<Rightarrow> run_state \<Rightarrow> (outcome \<times> run_state) option" where
  "tool fuel w r s =
     startServices ''tool'' ''tools.log'' ''failed to start tools'' (testRun.Tools r) fuel w r s"

text \<open>
  The loop of the \<^verbatim>\<open>test\<close> step: a select on the context, on the ticker (every
  \<^verbatim>\<open>timeBetweenLogs\<close>, after which the loop continues) and on \<^verbatim>\<open>time.After(r.Duration)\<close>
  (after which it ends). \<open>ticks\<close> is the number of times the ticker fires before the test
  is over, \<open>over\<close> the time at which it is.
\<close>

definition timeBetweenLogs :: nat where
  "timeBetweenLogs = 5 * Second"

fun test_loop :: "world \<Rightarrow> nat \<Rightarrow> nat \<Rightarrow> nat \<Rightarrow> error option \<times> nat" where
  "test_loop w 0 over t = select_Done_After w t (over - t)"
| "test_loop w (Suc ticks) over t =
     (case select_Done_After w t timeBetweenLogs of
        (Some err, t') \<Rightarrow> (Some err, t')
      | (None, t') \<Rightarrow> test_loop w ticks over t')"

definition test :: "world \<Rightarrow> ('m, 'st) testRun \<Rightarrow> run_state \<Rightarrow> error option \<times> run_state" where
  "test w r s0 =
     (let s1 = logs [RunningStep ''test''] s0;
          d = nat (testRun.Duration r)
      in case test_loop w ((d - 1) div timeBetweenLogs) (clock s1 + d) (clock s1) of
           (err, t) \<Rightarrow> (err, logs [StepDone ''test'' err] (s1\<lparr>clock := t\<rparr>)))"

text \<open>
  The \<^verbatim>\<open>cleanup\<close> step: the cleanup loop over \<^verbatim>\<open>r.cleanupFns\<close>, each closure calling the
  world.
\<close>

fun exec_cleanupFn :: "world \<Rightarrow> cleanupFn \<Rightarrow> run_state \<Rightarrow> error option \<times> run_state" where
  "exec_cleanupFn w (CloseFile path) s = (Close w path, logs [File_Close path] s)"
| "exec_cleanupFn w (StopContainers files) s =
     (ComposeDown w files (clock s), logs [Call_ComposeDown files] s)"

definition cleanup :: "world \<Rightarrow> run_state \<Rightarrow> error option \<times> run_state" where
  "cleanup w s0 =
     (let s1 = logs [RunningStep ''cleanup''] s0 in
      case run_cleanupFns (exec_cleanupFn w) (cleanupFns s1) s1 of
        (err, s2) \<Rightarrow> (err, logs [StepDone ''cleanup'' err] s2))"

section \<open>Run\<close>

text \<open>
  A step of the forward walk, \<^verbatim>\<open>func(context.Context) error\<close>: given fuel, the world, the
  run and the state, how it ends and the state it leaves, or \<open>None\<close> when it does not end
  within the fuel. \<open>total\<close> makes such a step of one that always returns.
\<close>

type_synonym ('m, 'st) step =
  "nat \<Rightarrow> world \<Rightarrow> ('m, 'st) testRun \<Rightarrow> run_state \<Rightarrow> (outcome \<times> run_state) option"

definition total :: "(run_state \<Rightarrow> error option \<times> run_state) \<Rightarrow> ('m, 'st) step" where
  "total f fuel w r s = (case f s of (err, s') \<Rightarrow> Some (Returned err, s'))"

abbreviation steps :: "('m, 'st) step list" where
  "steps \<equiv>
     [total preInfrastructure, infrastructure, total postInfrastructure,
      total preTool, tool, total postTool,
      total preTest, (\<lambda>fuel w r. total (test w r) fuel w r), total postTest]"

text \<open>
  \<^verbatim>\<open>for _, step := range steps { if err := step(ctx); err != nil { ...; return err } }\<close>:
  the walk stops at the first step that returns an error (or panics).
\<close>

fun run_steps ::
  "('m, 'st) step list \<Rightarrow> nat \<Rightarrow> world \<Rightarrow> ('m, 'st) testRun \<Rightarrow> run_state
    \<Rightarrow> (outcome \<times> run_state) option" where
  "run_steps [] fuel w r s = Some (Returned None, s)"
| "run_steps (step # rest) fuel w r s =
     (case step fuel w r s of
        None \<Rightarrow> None
      | Some (Returned None, s') \<Rightarrow> run_steps rest fuel w r s'
      | Some (out, s') \<Rightarrow> Some (out, s'))"

text \<open>
  The loop of the deferred function: every cleanup step runs, the errors are collected.
\<close>

fun run_cleanupSteps ::
  "(run_state \<Rightarrow> error option \<times> run_state) list \<Rightarrow> error list \<Rightarrow> run_state
    \<Rightarrow> error list \<times> run_state" where
  "run_cleanupSteps [] errs s = (errs, s)"
| "run_cleanupSteps (step # rest) errs s =
     (case step s of
        (None, s') \<Rightarrow> run_cleanupSteps rest errs s'
      | (Some err, s') \<Rightarrow> run_cleanupSteps rest (errs @ [err]) s')"

definition cleanupSteps :: "world \<Rightarrow> (run_state \<Rightarrow> error option \<times> run_state) list" where
  "cleanupSteps w = [preCleanup, cleanup w, postCleanup]"

text \<open>
  The deferred function of \<^verbatim>\<open>Run\<close>, given how the forward walk ended: it runs the cleanup
  steps; a nil result of the walk is replaced by the join of their errors, an error of
  the walk stays and the cleanup errors are logged, a panic goes on after it.
\<close>

definition deferred_cleanup :: "world \<Rightarrow> outcome \<Rightarrow> run_state \<Rightarrow> outcome \<times> run_state" where
  "deferred_cleanup w out s =
     (case run_cleanupSteps (cleanupSteps w) [] s of
        (errs, s') \<Rightarrow>
          (case out of
             Returned None \<Rightarrow> (Returned (errors_Join (map Some errs)), s')
           | Returned (Some err) \<Rightarrow>
               (Returned (Some err),
                if length errs > 0 then logs [CleanupFailed (Joined errs)] s' else s')
           | Panicked p \<Rightarrow> (Panicked p, s')))"

text \<open>
  \<^verbatim>\<open>testRun.Run\<close>: the guard on the output folder, its creation, a fresh pool and flag,
  then the forward walk with the cleanup deferred. \<open>None\<close> when the walk does not end
  within the fuel.
\<close>

definition Run ::
  "nat \<Rightarrow> world \<Rightarrow> ('m, 'st) testRun \<Rightarrow> run_state \<Rightarrow> (outcome \<times> run_state) option" where
  "Run fuel w r s0 =
     (let s1 = logs [Os_Stat (testRun.OutPath r)] s0 in
      if Stat w (testRun.OutPath r) then
        Some (Returned (Some (OutputFolderExists (testRun.OutPath r))), s1)
      else
        let s2 = logs [Os_MkdirAll (testRun.OutPath r)] s1 in
        case MkdirAll w (testRun.OutPath r) of
          Some err \<Rightarrow> Some (Returned (Some (CreateOutputFolder (testRun.OutPath r) err)), s2)
        | None \<Rightarrow>
            map_option (\<lambda>(out, s3). deferred_cleanup w out s3)
              (run_steps steps fuel w r (s2\<lparr>goroutinePool := []\<rparr>)))"

section \<open>An example configuration\<close>

definition example_config :: "(string, unit) Config" where
  "example_config =
     \<lparr>Config.Infrastructure = [\<lparr>DockerCompose = ''../infra/compose-kafka.yml''\<rparr>],
      Tools = [''conduit'' \<mapsto> \<lparr>DockerCompose = ''../tools/compose-conduit.yml''\<rparr>,
               ''kafka-connect'' \<mapsto> \<lparr>DockerCompose = ''../tools/compose-connect.yml''\<rparr>],
      Metrics = [''conduit'', ''kafka''],
      Tests =
        [\<lparr>Test.Name = ''kafka-to-kafka'', Duration = 30 * int Second, Steps = (),
          Infrastructure = [\<lparr>DockerCompose = ''../infra/compose-kafka.yml''\<rparr>],
          Tools = [''redpanda'' \<mapsto> \<lparr>DockerCompose = ''./redpanda/compose.yml''\<rparr>,
                   ''conduit'' \<mapsto> \<lparr>DockerCompose = ''./conduit/compose-conduit.override.yml''\<rparr>],
          Metrics = [''docker'']\<rparr>]\<rparr>"

definition example_client :: APIClient where
  "example_client c t = Inl (New ''no such container'')"

definition example_options :: RunOptions where
  "example_options = \<lparr>RunOptions.OutPath = ''out'', FilterTests = [], DockerClient = example_client\<rparr>"

definition example_Join :: "string \<Rightarrow> string \<Rightarrow> string" where
  "example_Join dir name = dir @ ''/'' @ name"

section \<open>Reading a trace\<close>

text \<open>
  The events only the deferred cleanup of \<open>Run\<close> produces: the log lines of the three
  cleanup steps, the calls of the registered closures, and the line logging their errors.
\<close>

definition cleanup_step_name :: "string \<Rightarrow> bool" where
  "cleanup_step_name name \<longleftrightarrow> name = ''pre-cleanup'' \<or> name = ''cleanup'' \<or> name = ''post-cleanup''"

fun cleanup_event :: "event \<Rightarrow> bool" where
  "cleanup_event (RunningStep name) = cleanup_step_name name"
| "cleanup_event (StepDone name err) = cleanup_step_name name"
| "cleanup_event (CleanupFailed err) = True"
| "cleanup_event (File_Close path) = True"
| "cleanup_event (Call_ComposeDown files) = True"
| "cleanup_event e = False"

text \<open>The event a registered closure leaves in the trace when it is called.\<close>

fun event_of :: "cleanupFn \<Rightarrow> event" where
  "event_of (CloseFile path) = File_Close path"
| "event_of (StopContainers files) = Call_ComposeDown files"

text \<open>The error a registered closure returns when it is called at time \<open>t\<close>.\<close>

fun result_of :: "world \<Rightarrow> nat \<Rightarrow> cleanupFn \<Rightarrow> error option" where
  "result_of w t (CloseFile path) = Close w path"
| "result_of w t (StopContainers files) = ComposeDown w files t"

text \<open>
  The trace of the three cleanup steps, for the closures registered and the error the
  \<open>cleanup\<close> step returns.
\<close>

definition cleanup_phase :: "cleanupFn list \<Rightarrow> error option \<Rightarrow> event list" where
  "cleanup_phase fns err =
     [RunningStep ''pre-cleanup'', StepDone ''pre-cleanup'' None, RunningStep ''cleanup'']
     @ map event_of (rev fns)
     @ [StepDone ''cleanup'' err, RunningStep ''post-cleanup'', StepDone ''post-cleanup'' None]"

text \<open>
  \<open>forward s s'\<close>: the state \<open>s'\<close> is reached from \<open>s\<close> by events that are not the cleanup's.
\<close>

definition forward :: "run_state \<Rightarrow> run_state \<Rightarrow> bool" where
  "forward s s' \<longleftrightarrow>
     (\<exists>evs. trace s' = trace s @ evs \<and> list_all (\<lambda>e. \<not> cleanup_event e) evs)"

section \<open>An example world\<close>

text \<open>
  A world for the examples. One output folder exists already. Compose-up of
  \<open>broken.yml\<close> fails as soon as it is started, any other never fails. Two containers,
  \<open>c1\<close> and \<open>c2\<close>, are listed from the second second on. Closing a log file succeeds,
  compose-down fails. The context is never cancelled.
\<close>

definition example_world :: world where
  "example_world =
     \<lparr>Stat = (\<lambda>path. path = ''out/20250101120000_kafka-to-kafka_old''),
      MkdirAll = (\<lambda>path. None),
      Create = (\<lambda>path. None),
      Close = (\<lambda>path. None),
      ComposeUp = (\<lambda>files t. if files = [''broken.yml''] then Some t else None),
      ComposePs = (\<lambda>files t. if t < 2 * Second then Inr [] else Inr [''c1'', ''c2'']),
      ComposeDown = (\<lambda>files t. Some (New ''compose down failed'')),
      Done = None,
      Err = New ''context canceled'',
      filepath_Join = example_Join\<rparr>"

definition container ::
  "string \<Rightarrow> bool \<Rightarrow> bool \<Rightarrow> string option \<Rightarrow> error + ContainerJSON" where
  "container name running dead health =
     Inr \<lparr>ContainerJSON.Name = name,
          State = \<lparr>Running = running, Dead = dead,
                   Health = map_option (\<lambda>status. \<lparr>Status = status\<rparr>) health\<rparr>\<rparr>"

text \<open>
  Four Docker clients. For all of them \<open>c1\<close> runs with a health check that reports
  \<open>starting\<close> until the fourth second and \<open>healthy\<close> from then on. For the first three
  \<open>c2\<close> has no health check; it is running for the first client, dead for the second, and
  created but not started (neither running nor dead) for the third. For the fourth \<open>c2\<close>
  has a health check that reports \<open>starting\<close>, and the container is dead from the third
  second on.
\<close>

definition kafka_container :: "nat \<Rightarrow> error + ContainerJSON" where
  "kafka_container t =
     container ''/kafka'' True False (Some (if t < 4 * Second then ''starting'' else ''healthy''))"

definition healthy_client :: APIClient where
  "healthy_client c t =
     (if c = ''c1'' then kafka_container t else container ''/zookeeper'' True False None)"

definition dead_client :: APIClient where
  "dead_client c t =
     (if c = ''c1'' then kafka_container t else container ''/zookeeper'' False True None)"

definition created_client :: APIClient where
  "created_client c t =
     (if c = ''c1'' then kafka_container t else container ''/zookeeper'' False False None)"

definition dying_client :: APIClient where
  "dying_client c t =
     (if c = ''c1'' then kafka_container t
      else container ''/zookeeper'' (t < 3 * Second) (3 * Second \<le> t) (Some ''starting''))"

definition example_run :: "string \<Rightarrow> APIClient \<Rightarrow> (string, unit) testRun" where
  "example_run tool_name client =
     \<lparr>testRun.Infrastructure = [\<lparr>DockerCompose = ''../infra/compose-kafka.yml''\<rparr>],
      Tools = [],
      Metrics = [],
      Name = ''kafka-to-kafka'',
      Duration = 0,
      Steps = (),
      Tool = tool_name,
      OutPath = ''out/20250101120000_kafka-to-kafka_'' @ tool_name,
      DockerClient = client\<rparr>"

definition initial_state :: run_state where
  "initial_state = \<lparr>cleanupFns = [], goroutinePool = [], clock = 0, trace = []\<rparr>"

text \<open>
  A state at the fourth second in which the steps \<open>infrastructure\<close> and \<open>tool\<close> have
  registered their closures.
\<close>

definition registered_state :: run_state where
  "registered_state =
     \<lparr>cleanupFns =
        [CloseFile ''out/infrastructure.log'', StopContainers [''kafka.yml''],
         CloseFile ''out/tools.log'', StopContainers [''conduit.yml'']],
      goroutinePool = [([''kafka.yml''], 0), ([''conduit.yml''], 2 * Second)],
      clock = 4 * Second,
      trace = []\<rparr>"

section \<open>Stating what Run returns\<close>

text \<open>
  What \<open>Run\<close> returns, given how the forward walk ended and the error of the \<open>cleanup\<close>
  step (the deferred function joins the errors of the cleanup steps, of which only
  \<open>cleanup\<close> can return one), and the line the deferred function logs.
\<close>

fun final_outcome :: "outcome \<Rightarrow> error option \<Rightarrow> outcome" where
  "final_outcome (Returned None) cerr = Returned (errors_Join [cerr])"
| "final_outcome (Returned (Some err)) cerr = Returned (Some err)"
| "final_outcome (Panicked p) cerr = Panicked p"

fun cleanup_log :: "outcome \<Rightarrow> error option \<Rightarrow> event list" where
  "cleanup_log (Returned (Some err)) (Some cerr) = [CleanupFailed (Joined [cerr])]"
| "cleanup_log out cerr = []"

section \<open>Collector settings\<close>

text \<open>
  A settings bag is a \<^verbatim>\<open>map[string]any\<close>. The dynamic values a bag read from YAML or built
  by a collector holds: nil, strings, integers, booleans, \<^verbatim>\<open>[]any\<close>, \<^verbatim>\<open>map[string]any\<close>, and
  the \<^verbatim>\<open>[]map[string]any\<close> the Kafka collector builds (a type of its own in Go: a type
  assertion to it fails on a \<^verbatim>\<open>[]any\<close>, whatever its elements). Floating-point values are
  left out. A map is an association list with distinct keys.
\<close>

datatype any =
    VNil
  | VString string
  | VInt int
  | VBool bool
  | VSlice "any list"
  | VMap "(string \<times> any) list"
  | VMapSlice "(string \<times> any) list list"

type_synonym settings = "(string \<times> any) list"

text \<open>
  The functions of Go's libraries the collectors call and the model does not define:
  \<^verbatim>\<open>url.Parse\<close> (its error only, \<open>None\<close> when the string parses), \<^verbatim>\<open>time.ParseDuration\<close>,
  \<^verbatim>\<open>strings.EqualFold\<close> (by which the decoder matches a key of the bag with the name of a
  field) and \<^verbatim>\<open>strconv.Quote\<close> (the verb \<^verbatim>\<open>%q\<close>).
\<close>

record golib =
  url_Parse :: "string \<Rightarrow> error option"
  ParseDuration :: "string \<Rightarrow> error + int"
  EqualFold :: "string \<Rightarrow> string \<Rightarrow> bool"
  Quote :: "string \<Rightarrow> string"

section \<open>The generic collector's configuration\<close>

record QueryConfig =
  Name :: string
  QueryString :: string
  Interval :: int
  Unit :: string

record prometheus_Config =
  URL :: string
  ScrapeInterval :: int
  Queries :: "QueryConfig list"

definition defaultConfig :: prometheus_Config where
  "defaultConfig = \<lparr>URL = [], ScrapeInterval = int Second, Queries = []\<rparr>"

text \<open>\<^verbatim>\<open>strconv.FormatInt(i, 10)\<close>, by which the decoder turns an integer into a string.\<close>

function showNat :: "nat \<Rightarrow> string" where
  "showNat n =
     (if n < 10 then [char_of (48 + n)] else showNat (n div 10) @ [char_of (48 + n mod 10)])"
  by pat_completeness auto
termination
  by (relation "measure id") auto

definition FormatInt :: "int \<Rightarrow> string" where
  "FormatInt i = (if i < 0 then CHR ''-'' # showNat (nat (- i)) else showNat (nat i))"

text \<open>
  The decoder of package mapstructure, as \<open>parseConfig\<close> configures it: the fields are
  named by their \<^verbatim>\<open>yaml\<close> tags, \<^verbatim>\<open>WeaklyTypedInput\<close> converts between the basic kinds,
  the hook \<^verbatim>\<open>StringToTimeDurationHookFunc\<close> parses a string given for a duration, and
  \<^verbatim>\<open>ErrorUnused\<close> makes a key of the bag that no field took an error. The decoder looks a
  field up under its exact name first and, failing that, under any key that
  \<^verbatim>\<open>strings.EqualFold\<close> matches with the name. A nil value leaves the field as it is. The
  decoder's error messages are not modelled.
\<close>

definition decodeError :: error where
  "decodeError = LibError ''mapstructure''"

definition fieldValue :: "golib \<Rightarrow> settings \<Rightarrow> string \<Rightarrow> (string \<times> any) option" where
  "fieldValue L m fieldName =
     (case map_of m fieldName of
        Some v \<Rightarrow> Some (fieldName, v)
      | None \<Rightarrow> List.find (\<lambda>(k, v). EqualFold L k fieldName) m)"

definition decodeField ::
  "golib \<Rightarrow> settings \<Rightarrow> string \<Rightarrow> (golib \<Rightarrow> any \<Rightarrow> 'a \<Rightarrow> error + 'a) \<Rightarrow> 'a \<Rightarrow> error + 'a" where
  "decodeField L m fieldName decode current =
     (case fieldValue L m fieldName of
        None \<Rightarrow> Inr current
      | Some (k, v) \<Rightarrow> decode L v current)"

definition unusedKeys :: "golib \<Rightarrow> settings \<Rightarrow> string list \<Rightarrow> string list" where
  "unusedKeys L m fieldNames =
     filter (\<lambda>k. k \<notin> fst ` set (List.map_filter (fieldValue L m) fieldNames)) (map fst m)"

fun decodeString :: "golib \<Rightarrow> any \<Rightarrow> string \<Rightarrow> error + string" where
  "decodeString L VNil current = Inr current"
| "decodeString L (VString s) current = Inr s"
| "decodeString L (VBool b) current = Inr (if b then ''1'' else ''0'')"
| "decodeString L (VInt i) current = Inr (FormatInt i)"
| "decodeString L v current = Inl decodeError"

fun decodeDuration :: "golib \<Rightarrow> any \<Rightarrow> int \<Rightarrow> error + int" where
  "decodeDuration L VNil current = Inr current"
| "decodeDuration L (VString s) current =
     (case ParseDuration L s of Inl err \<Rightarrow> Inl decodeError | Inr d \<Rightarrow> Inr d)"
| "decodeDuration L (VInt i) current = Inr i"
| "decodeDuration L (VBool b) current = Inr (if b then 1 else 0)"
| "decodeDuration L v current = Inl decodeError"

definition decodeQueryConfig :: "golib \<Rightarrow> settings \<Rightarrow> error + QueryConfig" where
  "decodeQueryConfig L m =
     (case (decodeField L m ''name'' decodeString [],
            decodeField L m ''query'' decodeString [],
            decodeField L m ''interval'' decodeDuration 0,
            decodeField L m ''unit'' decodeString []) of
        (Inr name, Inr query, Inr interval, Inr unit) \<Rightarrow>
          if unusedKeys L m [''name'', ''query'', ''interval'', ''unit''] = [] then
            Inr \<lparr>QueryConfig.Name = name, QueryString = query, Interval = interval, Unit = unit\<rparr>
          else Inl decodeError
      | _ \<Rightarrow> Inl decodeError)"

text \<open>An element of the \<^verbatim>\<open>queries\<close> list: nil leaves the zero value, a map is decoded.\<close>

fun decodeElement :: "golib \<Rightarrow> any \<Rightarrow> error + QueryConfig" where
  "decodeElement L VNil = Inr \<lparr>QueryConfig.Name = [], QueryString = [], Interval = 0, Unit = []\<rparr>"
| "decodeElement L (VMap m) = decodeQueryConfig L m"
| "decodeElement L v = Inl decodeError"

fun collect :: "(error + 'a) list \<Rightarrow> error + 'a list" where
  "collect [] = Inr []"
| "collect (Inl err # rs) = Inl decodeError"
| "collect (Inr x # rs) = (case collect rs of Inl err \<Rightarrow> Inl err | Inr xs \<Rightarrow> Inr (x # xs))"

text \<open>
  A slice: element by element. With \<^verbatim>\<open>WeaklyTypedInput\<close> an empty map is the empty
  slice, and any other value that is not a slice is taken as the slice of that one value.
\<close>

fun decodeQueries :: "golib \<Rightarrow> any \<Rightarrow> QueryConfig list \<Rightarrow> error + QueryConfig list" where
  "decodeQueries L VNil current = Inr current"
| "decodeQueries L (VSlice vs) current = collect (map (decodeElement L) vs)"
| "decodeQueries L (VMapSlice ms) current = collect (map (decodeQueryConfig L) ms)"
| "decodeQueries L (VMap m) current =
     (if m = [] then Inr [] else collect [decodeQueryConfig L m])"
| "decodeQueries L v current = collect [decodeElement L v]"

text \<open>
  \<^verbatim>\<open>dec.Decode(settings)\<close> into \<open>cfg\<close>; \<open>configFields\<close> are the \<^verbatim>\<open>yaml\<close> tags of the
  fields of \<^verbatim>\<open>Config\<close>.
\<close>

definition configFields :: "string list" where
  "configFields = [''url'', ''scrape-interval'', ''queries'']"

definition Decode :: "golib \<Rightarrow> settings \<Rightarrow> prometheus_Config \<Rightarrow> error + prometheus_Config" where
  "Decode L m cfg =
     (case (decodeField L m ''url'' decodeString (URL cfg),
            decodeField L m ''scrape-interval'' decodeDuration (ScrapeInterval cfg),
            decodeField L m ''queries'' decodeQueries (Queries cfg)) of
        (Inr url, Inr interval, Inr queries) \<Rightarrow>
          if unusedKeys L m configFields = [] then
            Inr \<lparr>URL = url, ScrapeInterval = interval, Queries = queries\<rparr>
          else Inl decodeError
      | _ \<Rightarrow> Inl decodeError)"

text \<open>
  \<^verbatim>\<open>
  func (c Config) parseURL() (*url.URL, error) {
      u, err := url.Parse(c.URL)
      if err != nil { return nil, fmt.Errorf("failed to parse URL: %w", err) }
      return u, nil
  }
  \<close>
  Only the error is kept: \<open>parseConfig\<close> discards the URL.
\<close>

definition parseURL :: "golib \<Rightarrow> prometheus_Config \<Rightarrow> error option" where
  "parseURL L c =
     (case url_Parse L (URL c) of
        Some err \<Rightarrow> Some (Wrap ''failed to parse URL'' err)
      | None \<Rightarrow> None)"

text \<open>
  \<open>parseConfig\<close> of package prometheus. \<^verbatim>\<open>mapstructure.NewDecoder\<close> returns an error only
  for a result that is not a pointer, which is not the case here.
\<close>

definition parseConfig :: "golib \<Rightarrow> settings \<Rightarrow> error + prometheus_Config" where
  "parseConfig L settings =
     (case Decode L settings defaultConfig of
        Inl err \<Rightarrow> Inl (Wrap ''failed to decode settings'' err)
      | Inr cfg \<Rightarrow>
          (case parseURL L cfg of
             Some err \<Rightarrow> Inl (Wrap ''failed to parse URL'' err)
           | None \<Rightarrow> Inr cfg))"

section \<open>The Kafka collector\<close>

text \<open>The three queries \<open>Configure\<close> builds for a topic.\<close>

definition topicQueries :: "golib \<Rightarrow> string \<Rightarrow> settings list" where
  "topicQueries L topic =
     [[(''name'', VString (''msg-rate-in-per-second['' @ topic @ '']'')),
       (''query'', VString (''rate(kafka_server_messages_in_per_sec_per_topic_total{topic=''
                            @ Quote L topic @ ''}[2s])'')),
       (''unit'', VString ''msg/s''),
       (''interval'', VString ''1s'')],
      [(''name'', VString (''msg-megabytes-in-per-second['' @ topic @ '']'')),
       (''query'', VString (''rate(kafka_server_total_bytes_in_per_sec_per_topic{topic=''
                            @ Quote L topic @ ''}[2s])/1048576'')),
       (''unit'', VString ''MB/s''),
       (''interval'', VString ''1s'')],
      [(''name'', VString (''msg-megabytes-out-per-second['' @ topic @ '']'')),
       (''query'', VString (''rate(kafka_server_total_bytes_out_per_sec_per_topic{topic=''
                            @ Quote L topic @ ''}[2s])/1048576'')),
       (''unit'', VString ''MB/s''),
       (''interval'', VString ''1s'')]]"

text \<open>
  Lines 111-145 of \<open>Configure\<close>: the settings handed to the embedded collector, for the
  topics of the parsed configuration.
  \<^verbatim>\<open>
  delete(settings, "topics")
  var queries []map[string]any
  for _, topic := range cfg.Topics { queries = append(queries, ...) }
  if settings["queries"] != nil {
      settingsQueries, ok := settings["queries"].([]map[string]any)
      if ok { queries = append(queries, settingsQueries...) }
  }
  settings["queries"] = queries
  \<close>
\<close>

definition delegatedSettings :: "golib \<Rightarrow> string list \<Rightarrow> settings \<Rightarrow> settings" where
  "delegatedSettings L topics settings0 =
     (let settings = AList.delete ''topics'' settings0;
          queries = foldl (\<lambda>queries topic. queries @ topicQueries L topic) [] topics;
          queries = (case map_of settings ''queries'' of
                       Some (VMapSlice settingsQueries) \<Rightarrow> queries @ settingsQueries
                     | _ \<Rightarrow> queries)
      in AList.update ''queries'' (VMapSlice queries) settings)"

text \<open>
  \<open>Configure\<close> of the Kafka collector. Its own \<^verbatim>\<open>parseConfig\<close> (package kafka), which gives
  the topics, and the \<^verbatim>\<open>Configure\<close> of the embedded collector are not among the sources:
  they are parameters.
\<close>

definition kafka_Configure ::
  "golib \<Rightarrow> (settings \<Rightarrow> error + string list) \<Rightarrow> (settings \<Rightarrow> error option) \<Rightarrow> settings
    \<Rightarrow> error option" where
  "kafka_Configure L kafka_parseConfig Collector_Configure settings =
     (case kafka_parseConfig settings of
        Inl err \<Rightarrow> Some (Wrap ''failed to parse config'' err)
      | Inr topics \<Rightarrow> Collector_Configure (delegatedSettings L topics settings))"

section \<open>Example settings\<close>

text \<open>
  Stand-ins for the library functions, right at the strings the examples use: as
  \<^verbatim>\<open>url.Parse\<close> does, the parser rejects a string that starts with a colon (a missing
  protocol scheme) and accepts the empty string and the endpoints below; the two durations
  are those of \<^verbatim>\<open>time.ParseDuration\<close>; keys are compared as \<^verbatim>\<open>strings.EqualFold\<close> compares
  ASCII strings; a topic name of letters, digits and hyphens is quoted as \<^verbatim>\<open>%q\<close> does.
\<close>

definition example_lib :: golib where
  "example_lib =
     \<lparr>url_Parse = (\<lambda>u. if take 1 u = '':'' then Some (LibError ''net/url'') else None),
      ParseDuration = (\<lambda>s. if s = ''1s'' then Inr (int Second)
                           else if s = ''500ms'' then Inr 500000000
                           else Inl (LibError ''time'')),
      EqualFold = (\<lambda>s t. map toLower s = map toLower t),
      Quote = (\<lambda>s. ''\"'' @ s @ ''\"'')\<rparr>"

text \<open>
  The settings of the Kafka collector in the repository's example benchmark, with one
  query of the user's added the way a YAML file gives it: a list, \<^verbatim>\<open>[]any\<close>, of maps.
\<close>

definition example_query :: settings where
  "example_query =
     [(''name'', VString ''lag''), (''query'', VString ''kafka_consumergroup_lag''),
      (''unit'', VString ''msg''), (''interval'', VString ''1s'')]"

definition kafka_settings :: settings where
  "kafka_settings =
     [(''url'', VString ''http://localhost:7071/metrics''),
      (''topics'', VSlice [VString ''benchi-in'']),
      (''queries'', VSlice [VMap example_query])]"

text \<open>The embedded collector's \<open>Configure\<close>, taken to fail as \<open>parseConfig\<close> does.\<close>

definition example_Configure :: "settings \<Rightarrow> error option" where
  "example_Configure settings =
     (case parseConfig example_lib settings of Inl err \<Rightarrow> Some err | Inr cfg \<Rightarrow> None)"

section \<open>Properties of the cleanup step\<close>

lemma non_nil_append: "non_nil (xs @ ys) = non_nil xs @ non_nil ys"
  by (induction xs rule: non_nil.induct) simp_all

lemma non_nil_empty_iff: "non_nil errs = [] \<longleftrightarrow> list_all (\<lambda>e. e = None) errs"
  by (induction errs rule: non_nil.induct) simp_all

lemma set_non_nil: "set (non_nil errs) = {e. Some e \<in> set errs}"
  by (induction errs rule: non_nil.induct) auto

lemma cleanup_loop_acc:
  "cleanup_loop exec fns errs s =
     (case cleanup_loop exec fns [] s of (rs, s') \<Rightarrow> (errs @ rs, s'))"
proof (induction fns arbitrary: errs s)
  case Nil
  show ?case by simp
next
  case (Cons fn fns)
  obtain e s1 where ex: "exec fn s = (e, s1)" by (cases "exec fn s")
  show ?case
    using Cons.IH [of "errs @ [e]" s1] Cons.IH [of "[e]" s1] ex
    by (simp split: prod.splits)
qed

lemma cleanup_loop_logged:
  "cleanup_loop (logged exec) fns [] (s, lg) =
     (case cleanup_loop exec fns [] s of (rs, s') \<Rightarrow> (rs, (s', lg @ zip fns rs)))"
proof (induction fns arbitrary: s lg)
  case Nil
  show ?case by simp
next
  case (Cons fn fns)
  obtain e s1 where ex: "exec fn s = (e, s1)" by (cases "exec fn s")
  have "cleanup_loop (logged exec) (fn # fns) [] (s, lg) =
          cleanup_loop (logged exec) fns [e] (s1, lg @ [(fn, e)])"
    using ex by (simp add: logged_def)
  also have "\<dots> = (case cleanup_loop (logged exec) fns [] (s1, lg @ [(fn, e)]) of
                      (rs, s') \<Rightarrow> ([e] @ rs, s'))"
    by (rule cleanup_loop_acc)
  also have "\<dots> = (case cleanup_loop exec fns [] s1 of
                      (rs, s') \<Rightarrow> (e # rs, (s', lg @ (fn, e) # zip fns rs)))"
    by (simp add: Cons.IH split: prod.splits)
  also have "\<dots> = (case cleanup_loop exec (fn # fns) [] s of
                      (rs, s') \<Rightarrow> (rs, (s', lg @ zip (fn # fns) rs)))"
    using ex cleanup_loop_acc [of exec fns "[e]" s1] by (simp split: prod.splits)
  finally show ?case .
qed

lemma cleanup_loop_length:
  "cleanup_loop exec fns [] s = (rs, s') \<Longrightarrow> length rs = length fns"
proof (induction fns arbitrary: s rs s')
  case Nil
  then show ?case by simp
next
  case (Cons fn fns)
  obtain e s1 where ex: "exec fn s = (e, s1)" by (cases "exec fn s")
  obtain rs1 s2 where r1: "cleanup_loop exec fns [] s1 = (rs1, s2)"
    by (cases "cleanup_loop exec fns [] s1")
  from Cons.prems ex r1 cleanup_loop_acc [of exec fns "[e]" s1] have "rs = e # rs1" by simp
  with Cons.IH [OF r1] show ?case by simp
qed

text \<open>
  The loop over the registered closures, whatever the closures are: every one of them is
  run, in reverse order of registration, whatever the earlier ones returned, and the
  errors they returned are joined in the order they ran. The ghost log does not change
  what the loop computes.
\<close>

lemma run_cleanupFns_logged:
  assumes "run_cleanupFns (logged exec) fns (s, []) = (err, (s', lg))"
  shows "map fst lg = rev fns
    \<and> length lg = length fns
    \<and> err = errors_Join (map snd lg)
    \<and> (err = None \<longleftrightarrow> list_all (\<lambda>(fn, e). e = None) lg)
    \<and> (err \<noteq> None \<longrightarrow> err = Some (Joined (non_nil (map snd lg))))
    \<and> run_cleanupFns exec fns s = (err, s')"
proof -
  obtain rs s1 where r: "cleanup_loop exec (rev fns) [] s = (rs, s1)"
    by (cases "cleanup_loop exec (rev fns) [] s")
  have len: "length rs = length fns"
    using cleanup_loop_length [OF r] by simp
  from assms r have e: "err = errors_Join rs" and s: "s' = s1"
    and l: "lg = zip (rev fns) rs"
    by (simp_all add: run_cleanupFns_def cleanup_loop_logged)
  have fs: "map fst lg = rev fns" using l len by simp
  have ln: "length lg = length fns" using l len by simp
  have sn: "map snd lg = rs" using l len by simp
  have "list_all (\<lambda>(fn, e). e = None) lg = list_all (\<lambda>e. e = None) (map snd lg)"
    by (simp add: list_all_iff case_prod_beta)
  then have none: "err = None \<longleftrightarrow> list_all (\<lambda>(fn, e). e = None) lg"
    using e sn by (simp add: errors_Join_def non_nil_empty_iff)
  have some: "err \<noteq> None \<longrightarrow> err = Some (Joined (non_nil (map snd lg)))"
    using e sn by (simp add: errors_Join_def)
  have same: "run_cleanupFns exec fns s = (err, s')"
    using r e s by (simp add: run_cleanupFns_def)
  from fs ln e sn none some same show ?thesis by simp
qed

lemma run_cleanupFns_logged_example:
  "run_cleanupFns (logged example_exec) [1, 2, 3] (0, []) =
     (Some (Joined [New ''close failed'']),
      (3, [(3, None), (2, Some (New ''close failed'')), (1, None)]))
   \<and> map fst [(3::nat, None), (2, Some (New ''close failed'')), (1, None)] = rev [1, 2, 3]
   \<and> Some (Joined [New ''close failed'']) =
       errors_Join (map snd [(3::nat, None), (2, Some (New ''close failed'')), (1, None)])
   \<and> run_cleanupFns example_exec [1, 2, 3] 0 = (Some (Joined [New ''close failed'']), 3)"
proof -
  have run: "run_cleanupFns (logged example_exec) [1, 2, 3] (0, []) =
     (Some (Joined [New ''close failed'']),
      (3, [(3, None), (2, Some (New ''close failed'')), (1, None)]))"
    by (simp add: run_cleanupFns_def logged_def example_exec_def errors_Join_def
        numeral_3_eq_3)
  from run_cleanupFns_logged [OF run] run show ?thesis by simp
qed

lemma exec_cleanupFn_eq:
  "exec_cleanupFn w fn s = (result_of w (clock s) fn, logs [event_of fn] s)"
  by (cases fn) simp_all

lemma cleanup_loop_results:
  "cleanup_loop (exec_cleanupFn w) fns errs s = (errs', s') \<Longrightarrow>
   errs' = errs @ map (result_of w (clock s)) fns"
proof (induction fns arbitrary: errs s)
  case Nil
  then show ?case by simp
next
  case (Cons fn fns)
  from Cons.prems have
    "cleanup_loop (exec_cleanupFn w) fns (errs @ [result_of w (clock s) fn])
       (logs [event_of fn] s) = (errs', s')"
    using exec_cleanupFn_eq [of w fn s] by simp
  from Cons.IH [OF this] show ?case by (simp add: logs_def)
qed

lemma cleanup_loop_exec:
  "cleanup_loop (exec_cleanupFn w) fns errs s = (errs', s') \<Longrightarrow>
   trace s' = trace s @ map event_of fns \<and> cleanupFns s' = cleanupFns s
   \<and> clock s' = clock s \<and> goroutinePool s' = goroutinePool s"
proof (induction fns arbitrary: errs s)
  case Nil
  then show ?case by simp
next
  case (Cons fn fns)
  obtain e s1 where ex: "exec_cleanupFn w fn s = (e, s1)" by (cases "exec_cleanupFn w fn s")
  then have s1: "trace s1 = trace s @ [event_of fn]" "cleanupFns s1 = cleanupFns s"
    "clock s1 = clock s" "goroutinePool s1 = goroutinePool s"
    by (cases fn; auto simp: logs_def)+
  from Cons.prems ex have "cleanup_loop (exec_cleanupFn w) fns (errs @ [e]) s1 = (errs', s')"
    by simp
  from Cons.IH [OF this] s1 show ?case by simp
qed

lemma cleanup_trace:
  assumes "cleanup w s = (err, s')"
  shows "trace s' = trace s @ [RunningStep ''cleanup''] @ map event_of (rev (cleanupFns s))
           @ [StepDone ''cleanup'' err]"
    and "cleanupFns s' = cleanupFns s"
proof -
  let ?s1 = "logs [RunningStep ''cleanup''] s"
  obtain errs s2 where loop:
    "cleanup_loop (exec_cleanupFn w) (rev (cleanupFns ?s1)) [] ?s1 = (errs, s2)"
    by (cases "cleanup_loop (exec_cleanupFn w) (rev (cleanupFns ?s1)) [] ?s1")
  from assms loop have s': "s' = logs [StepDone ''cleanup'' err] s2"
    by (auto simp: cleanup_def Let_def run_cleanupFns_def)
  from cleanup_loop_exec [OF loop] s'
  show "trace s' = trace s @ [RunningStep ''cleanup''] @ map event_of (rev (cleanupFns s))
           @ [StepDone ''cleanup'' err]"
    and "cleanupFns s' = cleanupFns s"
    by (simp_all add: logs_def)
qed

text \<open>
  C1. For every run state, whatever closures are registered in it, the \<open>cleanup\<close> step
  calls every one of them, once and in reverse order of registration, whatever the earlier
  ones returned: its trace is the line of its start, the call of each closure from the
  last registered to the first, and the line of its result. The error it returns is the
  join of what the closures returned, in the order they ran: nil exactly when none
  failed, and otherwise the join of exactly the errors returned. The step leaves the
  registered closures and the clock as they were.
\<close>

theorem cleanup_runs_all_in_reverse:
  assumes "cleanup w s = (err, s')"
  shows "trace s' = trace s @ [RunningStep ''cleanup''] @ map event_of (rev (cleanupFns s))
           @ [StepDone ''cleanup'' err]
    \<and> err = errors_Join (map (result_of w (clock s)) (rev (cleanupFns s)))
    \<and> (err = None \<longleftrightarrow> list_all (\<lambda>fn. result_of w (clock s) fn = None) (cleanupFns s))
    \<and> (err \<noteq> None \<longrightarrow>
         err = Some (Joined (non_nil (map (result_of w (clock s)) (rev (cleanupFns s))))))
    \<and> cleanupFns s' = cleanupFns s
    \<and> clock s' = clock s"
proof -
  let ?s1 = "logs [RunningStep ''cleanup''] s"
  let ?results = "map (result_of w (clock s)) (rev (cleanupFns s))"
  obtain errs s2 where loop:
    "cleanup_loop (exec_cleanupFn w) (rev (cleanupFns ?s1)) [] ?s1 = (errs, s2)"
    by (cases "cleanup_loop (exec_cleanupFn w) (rev (cleanupFns ?s1)) [] ?s1")
  from cleanup_loop_results [OF loop] have errs: "errs = ?results"
    by (simp add: logs_def)
  from assms loop have err: "err = errors_Join errs"
    and s': "s' = logs [StepDone ''cleanup'' err] s2"
    by (auto simp: cleanup_def Let_def run_cleanupFns_def)
  from cleanup_loop_exec [OF loop] s'
  have tr: "trace s' = trace s @ [RunningStep ''cleanup''] @ map event_of (rev (cleanupFns s))
           @ [StepDone ''cleanup'' err]"
    and fns: "cleanupFns s' = cleanupFns s" and ck: "clock s' = clock s"
    by (simp_all add: logs_def)
  have join: "err = errors_Join ?results"
    using err errs by simp
  have "list_all (\<lambda>e. e = None) ?results =
      list_all (\<lambda>fn. result_of w (clock s) fn = None) (cleanupFns s)"
    by (auto simp: list_all_iff)
  then have none: "err = None \<longleftrightarrow> list_all (\<lambda>fn. result_of w (clock s) fn = None) (cleanupFns s)"
    using join by (simp add: errors_Join_def non_nil_empty_iff)
  have some: "err \<noteq> None \<longrightarrow> err = Some (Joined (non_nil ?results))"
    using join by (simp add: errors_Join_def)
  from tr join none some fns ck show ?thesis by (intro conjI)
qed

lemma cleanup_example:
  "cleanup example_world registered_state =
     (Some (Joined [New ''compose down failed'', New ''compose down failed'']),
      registered_state\<lparr>trace :=
        [RunningStep ''cleanup'',
         Call_ComposeDown [''conduit.yml''], File_Close ''out/tools.log'',
         Call_ComposeDown [''kafka.yml''], File_Close ''out/infrastructure.log'',
         StepDone ''cleanup''
           (Some (Joined [New ''compose down failed'', New ''compose down failed'']))]\<rparr>)"
  by (simp add: cleanup_def run_cleanupFns_def errors_Join_def logs_def Let_def
      registered_state_def example_world_def)

theorem cleanup_runs_all_in_reverse_witness:
  "cleanup example_world registered_state =
     (Some (Joined [New ''compose down failed'', New ''compose down failed'']),
      registered_state\<lparr>trace :=
        [RunningStep ''cleanup'',
         Call_ComposeDown [''conduit.yml''], File_Close ''out/tools.log'',
         Call_ComposeDown [''kafka.yml''], File_Close ''out/infrastructure.log'',
         StepDone ''cleanup''
           (Some (Joined [New ''compose down failed'', New ''compose down failed'']))]\<rparr>)
   \<and> map event_of (rev (cleanupFns registered_state)) =
       [Call_ComposeDown [''conduit.yml''], File_Close ''out/tools.log'',
        Call_ComposeDown [''kafka.yml''], File_Close ''out/infrastructure.log'']
   \<and> map (result_of example_world (clock registered_state)) (rev (cleanupFns registered_state)) =
       [Some (New ''compose down failed''), None, Some (New ''compose down failed''), None]
   \<and> Some (Joined [New ''compose down failed'', New ''compose down failed'']) =
       errors_Join (map (result_of example_world (clock registered_state))
                      (rev (cleanupFns registered_state)))"
proof -
  have events: "map event_of (rev (cleanupFns registered_state)) =
       [Call_ComposeDown [''conduit.yml''], File_Close ''out/tools.log'',
        Call_ComposeDown [''kafka.yml''], File_Close ''out/infrastructure.log'']"
    by (simp add: registered_state_def)
  have results:
    "map (result_of example_world (clock registered_state)) (rev (cleanupFns registered_state)) =
       [Some (New ''compose down failed''), None, Some (New ''compose down failed''), None]"
    by (simp add: registered_state_def example_world_def)
  from cleanup_runs_all_in_reverse [OF cleanup_example]
  have "Some (Joined [New ''compose down failed'', New ''compose down failed'']) =
       errors_Join (map (result_of example_world (clock registered_state))
                      (rev (cleanupFns registered_state)))"
    by blast
  with cleanup_example events results show ?thesis by (intro conjI)
qed

section \<open>Properties of the run builder\<close>

lemma foldl_snoc: "foldl (\<lambda>acc v. acc @ [v]) acc xs = acc @ xs"
  by (induction xs arbitrary: acc) simp_all

lemma foldl_snoc_map: "foldl (\<lambda>acc v. acc @ [f v]) acc xs = acc @ map f xs"
  by (induction xs arbitrary: acc) simp_all

lemma foldl_append_concat: "foldl (\<lambda>acc v. acc @ f v) acc xs = acc @ concat (map f xs)"
  by (induction xs arbitrary: acc) simp_all

lemma foldl_snoc_filter:
  "foldl (\<lambda>acc k. if P k then acc @ [k] else acc) acc ks = acc @ filter P ks"
  by (induction ks arbitrary: acc) simp_all

lemma toolNames_eq:
  "toolNames cfg keys ks = keys @ filter (\<lambda>k. k \<notin> dom (Config.Tools cfg)) ks"
  by (simp add: toolNames_def foldl_snoc_filter domIff)

lemma foldl_append_concat_prod:
  "foldl (\<lambda>acc (i, v). acc @ f i v) acc xs = acc @ concat (map (\<lambda>(i, v). f i v) xs)"
  by (induction xs arbitrary: acc) (simp_all add: split_def)

lemma buildTestRuns_eq:
  "buildTestRuns join now maps_Keys range_Tools cfg opt =
     concat (map (\<lambda>(i, t). map (newTestRun join now cfg opt t)
                              (toolNames cfg (maps_Keys i) (range_Tools i)))
               (List.enumerate 0 (Tests cfg)))"
proof -
  have "buildTestRuns join now maps_Keys range_Tools cfg opt =
      foldl (\<lambda>runs (i, t). runs @ map (newTestRun join now cfg opt t)
                                      (toolNames cfg (maps_Keys i) (range_Tools i)))
        [] (List.enumerate 0 (Tests cfg))"
    by (simp add: buildTestRuns_def foldl_snoc foldl_snoc_map Let_def newTestRun_def [abs_def])
  then show ?thesis
    by (simp only: foldl_append_concat_prod append_Nil)
qed

text \<open>
  C7. Every run built for a scenario carries the global infrastructure list followed by the
  scenario's, and the global metrics followed by the scenario's, each list in its own order
  and with nothing removed: listing the scenario name, the infrastructure and the metrics of
  the runs in the order they are built gives, scenario after scenario, one such triple per
  tool name of the scenario, whatever the order in which the tool maps are visited.
\<close>

theorem buildTestRuns_merge_order:
  "map (\<lambda>r. (testRun.Name r, testRun.Infrastructure r, testRun.Metrics r))
       (buildTestRuns join now maps_Keys range_Tools cfg opt) =
     concat (map (\<lambda>(i, t). replicate (length (toolNames cfg (maps_Keys i) (range_Tools i)))
                         (Test.Name t,
                          Config.Infrastructure cfg @ Test.Infrastructure t,
                          Config.Metrics cfg @ Test.Metrics t))
                 (List.enumerate 0 (Tests cfg)))"
  by (simp add: buildTestRuns_eq map_concat comp_def newTestRun_def map_replicate_const
      split_def)

theorem buildTestRuns_merge_order_example:
  "map (\<lambda>r. (testRun.Name r, testRun.Infrastructure r, testRun.Metrics r))
       (buildTestRuns example_Join ''20250101120000''
          (\<lambda>i. [''kafka-connect'', ''conduit'']) (\<lambda>i. [''conduit'', ''redpanda''])
          example_config example_options) =
     [(''kafka-to-kafka'',
       [\<lparr>DockerCompose = ''../infra/compose-kafka.yml''\<rparr>,
        \<lparr>DockerCompose = ''../infra/compose-kafka.yml''\<rparr>],
       [''conduit'', ''kafka'', ''docker'']),
      (''kafka-to-kafka'',
       [\<lparr>DockerCompose = ''../infra/compose-kafka.yml''\<rparr>,
        \<lparr>DockerCompose = ''../infra/compose-kafka.yml''\<rparr>],
       [''conduit'', ''kafka'', ''docker'']),
      (''kafka-to-kafka'',
       [\<lparr>DockerCompose = ''../infra/compose-kafka.yml''\<rparr>,
        \<lparr>DockerCompose = ''../infra/compose-kafka.yml''\<rparr>],
       [''conduit'', ''kafka'', ''docker''])]"
  using buildTestRuns_merge_order [of example_Join "''20250101120000''"
      "\<lambda>i. [''kafka-connect'', ''conduit'']" "\<lambda>i. [''conduit'', ''redpanda'']"
      example_config example_options]
  by (simp add: example_config_def toolNames_eq)

lemma distinct_toolNames:
  "range_order (Config.Tools cfg) keys \<Longrightarrow> range_order m ks \<Longrightarrow>
   distinct (toolNames cfg keys ks)"
  by (auto simp: toolNames_eq range_order_def)

lemma set_toolNames:
  "range_order (Config.Tools cfg) keys \<Longrightarrow> range_order m ks \<Longrightarrow>
   set (toolNames cfg keys ks) = dom (Config.Tools cfg) \<union> dom m"
  by (auto simp: toolNames_eq range_order_def)

lemma mset_toolNames:
  assumes "range_order (Config.Tools cfg) keys" and "range_order m ks"
    and "range_order (Config.Tools cfg) keys'" and "range_order m ks'"
  shows "mset (toolNames cfg keys ks) = mset (toolNames cfg keys' ks')"
proof -
  have "set (toolNames cfg keys ks) = set (toolNames cfg keys' ks')"
    using assms by (simp add: set_toolNames)
  moreover have "distinct (toolNames cfg keys ks)" "distinct (toolNames cfg keys' ks')"
    using assms by (simp_all add: distinct_toolNames)
  ultimately show ?thesis
    by (simp add: set_eq_iff_mset_eq_distinct)
qed

lemma in_set_enumerate_0:
  "(i, t) \<in> set (List.enumerate 0 ts) \<Longrightarrow> i < length ts \<and> t = ts ! i"
  by (auto simp: in_set_enumerate_eq)

text \<open>
  C8, as amended. The runs are built scenario after scenario, and within a scenario one
  per tool name: the globally declared names, in the order \<^verbatim>\<open>maps.Keys\<close> yields them in
  this pass, then the names only the scenario declares, in the order \<^verbatim>\<open>range\<close> visits them
  in this pass; these are the names of the union of both maps, each once. The order of
  the tools within a scenario is thus the runtime's, not the input's: two calls on the
  same configuration build the same runs (but for the output path, which holds the time
  of the call) and the same sequence of scenarios, the runs of a scenario possibly in
  another order.
\<close>

theorem buildTestRuns_order:
  assumes "\<forall>i < length (Tests cfg).
             range_order (Config.Tools cfg) (maps_Keys i) \<and>
             range_order (Test.Tools (Tests cfg ! i)) (range_Tools i)"
    and "\<forall>i < length (Tests cfg).
             range_order (Config.Tools cfg) (maps_Keys' i) \<and>
             range_order (Test.Tools (Tests cfg ! i)) (range_Tools' i)"
  shows "map (\<lambda>r. (testRun.Name r, testRun.Tool r))
           (buildTestRuns join now maps_Keys range_Tools cfg opt) =
         concat (map (\<lambda>(i, t). map (\<lambda>tool. (Test.Name t, tool))
                        (maps_Keys i @
                         filter (\<lambda>k. k \<notin> dom (Config.Tools cfg)) (range_Tools i)))
                   (List.enumerate 0 (Tests cfg)))
    \<and> (\<forall>i < length (Tests cfg).
          distinct (toolNames cfg (maps_Keys i) (range_Tools i)) \<and>
          set (toolNames cfg (maps_Keys i) (range_Tools i)) =
            dom (Config.Tools cfg) \<union> dom (Test.Tools (Tests cfg ! i)))
    \<and> mset (map (\<lambda>r. r\<lparr>testRun.OutPath := []\<rparr>)
              (buildTestRuns join now maps_Keys range_Tools cfg opt)) =
      mset (map (\<lambda>r. r\<lparr>testRun.OutPath := []\<rparr>)
              (buildTestRuns join' now' maps_Keys' range_Tools' cfg opt))
    \<and> map testRun.Name (buildTestRuns join now maps_Keys range_Tools cfg opt) =
      map testRun.Name (buildTestRuns join' now' maps_Keys' range_Tools' cfg opt)"
proof -
  let ?names = "\<lambda>i. toolNames cfg (maps_Keys i) (range_Tools i)"
  let ?names' = "\<lambda>i. toolNames cfg (maps_Keys' i) (range_Tools' i)"
  let ?blank = "\<lambda>t tool. (newTestRun join now cfg opt t tool)\<lparr>testRun.OutPath := []\<rparr>"
  have order: "map (\<lambda>r. (testRun.Name r, testRun.Tool r))
           (buildTestRuns join now maps_Keys range_Tools cfg opt) =
         concat (map (\<lambda>(i, t). map (\<lambda>tool. (Test.Name t, tool))
                        (maps_Keys i @
                         filter (\<lambda>k. k \<notin> dom (Config.Tools cfg)) (range_Tools i)))
                   (List.enumerate 0 (Tests cfg)))"
    by (simp add: buildTestRuns_eq map_concat comp_def newTestRun_def toolNames_eq
        split_def)
  have names: "\<forall>i < length (Tests cfg).
          distinct (?names i) \<and>
          set (?names i) = dom (Config.Tools cfg) \<union> dom (Test.Tools (Tests cfg ! i))"
  proof (intro allI impI)
    fix i
    assume "i < length (Tests cfg)"
    with assms(1) have g: "range_order (Config.Tools cfg) (maps_Keys i)"
      and t: "range_order (Test.Tools (Tests cfg ! i)) (range_Tools i)"
      by simp_all
    from distinct_toolNames [OF g t] set_toolNames [OF g t]
    show "distinct (?names i) \<and>
          set (?names i) = dom (Config.Tools cfg) \<union> dom (Test.Tools (Tests cfg ! i))"
      by simp
  qed
  have perm: "mset (?names i) = mset (?names' i)" if "i < length (Tests cfg)" for i
    using assms that by (intro mset_toolNames [where m = "Test.Tools (Tests cfg ! i)"]) simp_all
  have blank: "(newTestRun join' now' cfg opt t tool)\<lparr>testRun.OutPath := []\<rparr> = ?blank t tool"
    for t tool
    by (simp add: newTestRun_def)
  have blocks:
    "map (\<lambda>(i, t). mset (map (?blank t) (?names i))) (List.enumerate 0 (Tests cfg)) =
     map (\<lambda>(i, t). mset (map (?blank t) (?names' i))) (List.enumerate 0 (Tests cfg))"
  proof (rule map_cong [OF refl])
    fix p
    assume "p \<in> set (List.enumerate 0 (Tests cfg))"
    then have "fst p < length (Tests cfg)"
      using in_set_enumerate_0 [of "fst p" "snd p" "Tests cfg"] by simp
    from perm [OF this] have "mset (map (?blank (snd p)) (?names (fst p))) =
        mset (map (?blank (snd p)) (?names' (fst p)))"
      by (metis mset_map)
    then show "(case p of (i, t) \<Rightarrow> mset (map (?blank t) (?names i))) =
        (case p of (i, t) \<Rightarrow> mset (map (?blank t) (?names' i)))"
      by (simp add: split_def)
  qed
  have left: "mset (map (\<lambda>r. r\<lparr>testRun.OutPath := []\<rparr>)
              (buildTestRuns join now maps_Keys range_Tools cfg opt)) =
      sum_list (map (\<lambda>(i, t). mset (map (?blank t) (?names i))) (List.enumerate 0 (Tests cfg)))"
    by (simp add: buildTestRuns_eq map_concat mset_concat comp_def split_def)
  have right: "mset (map (\<lambda>r. r\<lparr>testRun.OutPath := []\<rparr>)
              (buildTestRuns join' now' maps_Keys' range_Tools' cfg opt)) =
      sum_list (map (\<lambda>(i, t). mset (map (?blank t) (?names' i))) (List.enumerate 0 (Tests cfg)))"
    by (simp add: buildTestRuns_eq map_concat mset_concat comp_def split_def blank)
  have same: "mset (map (\<lambda>r. r\<lparr>testRun.OutPath := []\<rparr>)
              (buildTestRuns join now maps_Keys range_Tools cfg opt)) =
      mset (map (\<lambda>r. r\<lparr>testRun.OutPath := []\<rparr>)
              (buildTestRuns join' now' maps_Keys' range_Tools' cfg opt))"
    by (simp only: left right blocks)
  have lengths:
    "map (\<lambda>(i, t). replicate (length (?names i)) (Test.Name t)) (List.enumerate 0 (Tests cfg)) =
     map (\<lambda>(i, t). replicate (length (?names' i)) (Test.Name t)) (List.enumerate 0 (Tests cfg))"
  proof (rule map_cong [OF refl])
    fix p
    assume "p \<in> set (List.enumerate 0 (Tests cfg))"
    then have "fst p < length (Tests cfg)"
      using in_set_enumerate_0 [of "fst p" "snd p" "Tests cfg"] by simp
    from perm [OF this] have "length (?names (fst p)) = length (?names' (fst p))"
      by (metis size_mset)
    then show "(case p of (i, t) \<Rightarrow> replicate (length (?names i)) (Test.Name t)) =
        (case p of (i, t) \<Rightarrow> replicate (length (?names' i)) (Test.Name t))"
      by (simp add: split_def)
  qed
  have names_of: "map testRun.Name (buildTestRuns j n mk rt cfg opt) =
      concat (map (\<lambda>(i, t). replicate (length (toolNames cfg (mk i) (rt i))) (Test.Name t))
                (List.enumerate 0 (Tests cfg)))" for j n mk rt
    by (simp add: buildTestRuns_eq map_concat comp_def split_def newTestRun_def
        map_replicate_const)
  have scenarios: "map testRun.Name (buildTestRuns join now maps_Keys range_Tools cfg opt) =
      map testRun.Name (buildTestRuns join' now' maps_Keys' range_Tools' cfg opt)"
    by (simp only: names_of lengths)
  from order names same scenarios show ?thesis by (intro conjI)
qed

lemma range_order_example:
  "range_order (Config.Tools example_config) [''conduit'', ''kafka-connect'']"
  "range_order (Config.Tools example_config) [''kafka-connect'', ''conduit'']"
  "range_order (Test.Tools (Tests example_config ! 0)) [''redpanda'', ''conduit'']"
  "range_order (Test.Tools (Tests example_config ! 0)) [''conduit'', ''redpanda'']"
  by (auto simp: range_order_def example_config_def)

theorem buildTestRuns_order_witness:
  "range_order (Config.Tools example_config) [''conduit'', ''kafka-connect'']
   \<and> range_order (Test.Tools (Tests example_config ! 0)) [''redpanda'', ''conduit'']
   \<and> range_order (Config.Tools example_config) [''kafka-connect'', ''conduit'']
   \<and> range_order (Test.Tools (Tests example_config ! 0)) [''conduit'', ''redpanda'']
   \<and> map (\<lambda>r. (testRun.Name r, testRun.Tool r))
       (buildTestRuns example_Join ''20250101120000''
          (\<lambda>i. [''conduit'', ''kafka-connect'']) (\<lambda>i. [''redpanda'', ''conduit''])
          example_config example_options) =
     [(''kafka-to-kafka'', ''conduit''), (''kafka-to-kafka'', ''kafka-connect''),
      (''kafka-to-kafka'', ''redpanda'')]
   \<and> mset (map (\<lambda>r. r\<lparr>testRun.OutPath := []\<rparr>)
         (buildTestRuns example_Join ''20250101120000''
            (\<lambda>i. [''conduit'', ''kafka-connect'']) (\<lambda>i. [''redpanda'', ''conduit''])
            example_config example_options)) =
     mset (map (\<lambda>r. r\<lparr>testRun.OutPath := []\<rparr>)
         (buildTestRuns example_Join ''20250101120005''
            (\<lambda>i. [''kafka-connect'', ''conduit'']) (\<lambda>i. [''conduit'', ''redpanda''])
            example_config example_options))"
proof -
  have len: "length (Tests example_config) = 1"
    by (simp add: example_config_def)
  have valid: "\<forall>i < length (Tests example_config).
      range_order (Config.Tools example_config) [''conduit'', ''kafka-connect''] \<and>
      range_order (Test.Tools (Tests example_config ! i)) [''redpanda'', ''conduit'']"
    using range_order_example by (simp add: len)
  have valid': "\<forall>i < length (Tests example_config).
      range_order (Config.Tools example_config) [''kafka-connect'', ''conduit''] \<and>
      range_order (Test.Tools (Tests example_config ! i)) [''conduit'', ''redpanda'']"
    using range_order_example by (simp add: len)
  note inst = buildTestRuns_order [OF valid valid', of example_Join "''20250101120000''"
      example_options example_Join "''20250101120005''"]
  from inst have order: "map (\<lambda>r. (testRun.Name r, testRun.Tool r))
       (buildTestRuns example_Join ''20250101120000''
          (\<lambda>i. [''conduit'', ''kafka-connect'']) (\<lambda>i. [''redpanda'', ''conduit''])
          example_config example_options) =
     [(''kafka-to-kafka'', ''conduit''), (''kafka-to-kafka'', ''kafka-connect''),
      (''kafka-to-kafka'', ''redpanda'')]"
    by (simp add: example_config_def)
  from inst have same: "mset (map (\<lambda>r. r\<lparr>testRun.OutPath := []\<rparr>)
         (buildTestRuns example_Join ''20250101120000''
            (\<lambda>i. [''conduit'', ''kafka-connect'']) (\<lambda>i. [''redpanda'', ''conduit''])
            example_config example_options)) =
     mset (map (\<lambda>r. r\<lparr>testRun.OutPath := []\<rparr>)
         (buildTestRuns example_Join ''20250101120005''
            (\<lambda>i. [''kafka-connect'', ''conduit'']) (\<lambda>i. [''conduit'', ''redpanda''])
            example_config example_options))"
    by blast
  from range_order_example order same show ?thesis by (intro conjI)
qed

text \<open>
  C8 as stated fails: the order of the runs is not determined by the configuration. Two
  calls on the example configuration, at the same time, in which the runtime visits the
  keys of the global tool map in the two possible orders, build the runs of the scenario
  in different orders.
\<close>

theorem buildTestRuns_order_varies:
  "range_order (Config.Tools example_config) [''conduit'', ''kafka-connect'']
   \<and> range_order (Config.Tools example_config) [''kafka-connect'', ''conduit'']
   \<and> range_order (Test.Tools (Tests example_config ! 0)) [''redpanda'', ''conduit'']
   \<and> map testRun.Tool
       (buildTestRuns example_Join ''20250101120000''
          (\<lambda>i. [''conduit'', ''kafka-connect'']) (\<lambda>i. [''redpanda'', ''conduit''])
          example_config example_options) =
     [''conduit'', ''kafka-connect'', ''redpanda'']
   \<and> map testRun.Tool
       (buildTestRuns example_Join ''20250101120000''
          (\<lambda>i. [''kafka-connect'', ''conduit'']) (\<lambda>i. [''redpanda'', ''conduit''])
          example_config example_options) =
     [''kafka-connect'', ''conduit'', ''redpanda'']
   \<and> buildTestRuns example_Join ''20250101120000''
          (\<lambda>i. [''conduit'', ''kafka-connect'']) (\<lambda>i. [''redpanda'', ''conduit''])
          example_config example_options \<noteq>
     buildTestRuns example_Join ''20250101120000''
          (\<lambda>i. [''kafka-connect'', ''conduit'']) (\<lambda>i. [''redpanda'', ''conduit''])
          example_config example_options"
proof -
  have first: "map testRun.Tool
       (buildTestRuns example_Join ''20250101120000''
          (\<lambda>i. [''conduit'', ''kafka-connect'']) (\<lambda>i. [''redpanda'', ''conduit''])
          example_config example_options) =
     [''conduit'', ''kafka-connect'', ''redpanda'']"
    by (simp add: buildTestRuns_eq newTestRun_def toolNames_eq example_config_def)
  have second: "map testRun.Tool
       (buildTestRuns example_Join ''20250101120000''
          (\<lambda>i. [''kafka-connect'', ''conduit'']) (\<lambda>i. [''redpanda'', ''conduit''])
          example_config example_options) =
     [''kafka-connect'', ''conduit'', ''redpanda'']"
    by (simp add: buildTestRuns_eq newTestRun_def toolNames_eq example_config_def)
  have differ:
    "buildTestRuns example_Join ''20250101120000''
          (\<lambda>i. [''conduit'', ''kafka-connect'']) (\<lambda>i. [''redpanda'', ''conduit''])
          example_config example_options \<noteq>
     buildTestRuns example_Join ''20250101120000''
          (\<lambda>i. [''kafka-connect'', ''conduit'']) (\<lambda>i. [''redpanda'', ''conduit''])
          example_config example_options"
  proof
    assume "buildTestRuns example_Join ''20250101120000''
          (\<lambda>i. [''conduit'', ''kafka-connect'']) (\<lambda>i. [''redpanda'', ''conduit''])
          example_config example_options =
     buildTestRuns example_Join ''20250101120000''
          (\<lambda>i. [''kafka-connect'', ''conduit'']) (\<lambda>i. [''redpanda'', ''conduit''])
          example_config example_options"
    then have "map testRun.Tool (buildTestRuns example_Join ''20250101120000''
          (\<lambda>i. [''conduit'', ''kafka-connect'']) (\<lambda>i. [''redpanda'', ''conduit''])
          example_config example_options) =
     map testRun.Tool (buildTestRuns example_Join ''20250101120000''
          (\<lambda>i. [''kafka-connect'', ''conduit'']) (\<lambda>i. [''redpanda'', ''conduit''])
          example_config example_options)"
      by (rule arg_cong)
    then have "[''conduit'', ''kafka-connect'', ''redpanda''] =
        [''kafka-connect'', ''conduit'', ''redpanda'']"
      by (simp only: first second)
    then show False by simp
  qed
  from range_order_example(1,2,3) first second differ show ?thesis by (intro conjI)
qed

section \<open>Properties of the steps\<close>

lemma Second_pos: "0 < Second"
  by (simp add: Second_def)

lemma trace_logs: "trace (logs evs s) = trace s @ evs"
  by (simp add: logs_def)

lemma cleanupFns_logs: "cleanupFns (logs evs s) = cleanupFns s"
  by (simp add: logs_def)

lemma clock_logs: "clock (logs evs s) = clock s"
  by (simp add: logs_def)

lemma goroutinePool_logs: "goroutinePool (logs evs s) = goroutinePool s"
  by (simp add: logs_def)

lemma forward_refl: "forward s s"
  by (simp add: forward_def)

lemma forward_trans: "forward s s' \<Longrightarrow> forward s' s'' \<Longrightarrow> forward s s''"
  by (auto simp: forward_def)

lemma forward_logs:
  "list_all (\<lambda>e. \<not> cleanup_event e) evs \<Longrightarrow> forward s s' \<Longrightarrow> forward s (logs evs s')"
  by (auto simp: forward_def trace_logs)

lemma forward_trace_eq: "trace s' = trace s \<Longrightarrow> forward s s'"
  by (simp add: forward_def)

lemma pollContainer_events:
  "pollContainer fuel w client c t = Some (out, t', evs) \<Longrightarrow>
   list_all (\<lambda>e. \<not> cleanup_event e) evs"
proof (induction fuel arbitrary: t out t' evs)
  case 0
  then show ?case by simp
next
  case (Suc fuel)
  show ?case
  proof (cases "client c t")
    case (Inl err)
    with Suc.prems show ?thesis by auto
  next
    case (Inr resp)
    obtain e1 t1 where sel: "select_Done_After w t Second = (e1, t1)"
      by (cases "select_Done_After w t Second")
    show ?thesis
    proof (cases "pollContainer fuel w client c t1")
      case None
      with Suc.prems Inr sel show ?thesis
        by (auto split: if_splits option.splits)
    next
      case (Some res)
      obtain out2 t2 evs2 where res: "res = (out2, t2, evs2)" by (cases res)
      from Suc.IH [of t1 out2 t2 evs2] Some res
      have "list_all (\<lambda>e. \<not> cleanup_event e) evs2" by simp
      with Suc.prems Inr sel Some res show ?thesis
        by (auto split: if_splits option.splits)
    qed
  qed
qed

lemma those_Some_iff:
  "those xs = Some ys \<longleftrightarrow> xs = map Some ys"
proof (induction xs arbitrary: ys)
  case Nil
  show ?case by auto
next
  case (Cons x xs)
  show ?case
    by (cases x) (auto simp: Cons.IH split: option.splits)
qed

lemma waitContainers_events:
  assumes "waitContainers fuel w client containers t0 = Some (out, t', evs)"
  shows "list_all (\<lambda>e. \<not> cleanup_event e) evs"
proof -
  from assms obtain tasks where
    th: "those (map (\<lambda>c. pollContainer fuel w client c t0) containers) = Some tasks"
    and res: "(case wg_Wait tasks t0 of
            (Returned (Some err), t', evs) \<Rightarrow>
              (Returned (Some (Wrap ''failed to start containers'' err)), t', evs)
          | (out, t', evs) \<Rightarrow> (out, t', evs)) = (out, t', evs)"
    by (auto simp: waitContainers_def)
  from th have m: "map (\<lambda>c. pollContainer fuel w client c t0) containers = map Some tasks"
    by (simp add: those_Some_iff)
  have each: "list_all (\<lambda>e. \<not> cleanup_event e) (snd (snd task))" if "task \<in> set tasks" for task
  proof -
    from that m have "Some task \<in> set (map (\<lambda>c. pollContainer fuel w client c t0) containers)"
      by simp
    then obtain c where "pollContainer fuel w client c t0 = Some task" by auto
    then show ?thesis
      using pollContainer_events [of fuel w client c t0 "fst task" "fst (snd task)" "snd (snd task)"]
      by simp
  qed
  have "evs = concat (map (\<lambda>(out, t, evs). evs) tasks)"
    using res
    by (auto simp: wg_Wait_def Let_def split: list.splits outcome.splits option.splits prod.splits)
  with each show ?thesis
    by (auto simp: list_all_iff)
qed

lemma listContainers_events:
  "listContainers n w files t evs = (res, t', evs') \<Longrightarrow>
   \<exists>more. evs' = evs @ more \<and> list_all (\<lambda>e. \<not> cleanup_event e) more
      \<and> list_all (\<lambda>e. \<forall>c. e \<noteq> Call_ContainerInspect c) more"
proof (induction n arbitrary: t evs)
  case 0
  then show ?case by simp
next
  case (Suc n)
  obtain e1 t1 where sel: "select_Done_After w t Second = (e1, t1)"
    by (cases "select_Done_After w t Second")
  show ?case
  proof (cases e1)
    case (Some err)
    with Suc.prems sel show ?thesis by auto
  next
    case None
    show ?thesis
    proof (cases "ComposePs w files t1")
      case (Inl err)
      with Suc.prems sel None show ?thesis by auto
    next
      case (Inr containers)
      show ?thesis
      proof (cases "length containers > 0")
        case True
        with Suc.prems sel None Inr show ?thesis by auto
      next
        case False
        with Suc.prems sel None Inr
        have "listContainers n w files t1 (evs @ [Waited (t1 - t), Call_ComposePs files]) =
                (res, t', evs')"
          by simp
        from Suc.IH [OF this] show ?thesis by auto
      qed
    qed
  qed
qed

lemma trace_startComposeUp:
  "trace (startComposeUp files logPath s) = trace s @ [Go_ComposeUp files]"
  by (simp add: startComposeUp_def logs_def)

lemma dockerComposeUpWait_forward:
  assumes "dockerComposeUpWait fuel w r files logPath s = Some (out, s')"
  shows "forward s s'"
proof (cases "Create w logPath")
  case (Some err)
  with assms show ?thesis
    by (auto simp: dockerComposeUpWait_def Let_def forward_def trace_logs)
next
  case None
  define s2 where "s2 = startComposeUp files logPath (logs [Os_Create logPath] s)"
  have tr2: "trace s2 = trace s @ [Os_Create logPath, Go_ComposeUp files]"
    by (simp add: s2_def trace_startComposeUp trace_logs)
  obtain res t evs where lc: "listContainers 30 w files (clock s2) [] = (res, t, evs)"
    by (cases "listContainers 30 w files (clock s2) []")
  from listContainers_events [OF lc]
  have evs: "list_all (\<lambda>e. \<not> cleanup_event e) evs" by auto
  have unfold: "dockerComposeUpWait fuel w r files logPath s =
    (case listContainers 30 w files (clock s2) [] of
       (Inl err, t, evs) \<Rightarrow> Some (Returned (Some err), logs evs (s2\<lparr>clock := t\<rparr>))
     | (Inr containers, t, evs) \<Rightarrow>
         let s3 = logs evs (s2\<lparr>clock := t\<rparr>) in
         if goroutinePoolDead w s3 then
           Some (Returned (Some (New ''failed to start containers'')), s3)
         else
           map_option (\<lambda>(out, t', evs'). (out, logs evs' (s3\<lparr>clock := t'\<rparr>)))
             (waitContainers fuel w (testRun.DockerClient r) containers (clock s3)))"
    unfolding dockerComposeUpWait_def s2_def Let_def using None by simp
  show ?thesis
  proof (cases res)
    case (Inl err)
    with assms unfold lc have "s' = logs evs (s2\<lparr>clock := t\<rparr>)" by simp
    with tr2 evs show ?thesis by (simp add: forward_def trace_logs)
  next
    case (Inr containers)
    define s3 where "s3 = logs evs (s2\<lparr>clock := t\<rparr>)"
    have tr3: "trace s3 = trace s @ [Os_Create logPath, Go_ComposeUp files] @ evs"
      by (simp add: s3_def trace_logs tr2)
    show ?thesis
    proof (cases "goroutinePoolDead w s3")
      case True
      with assms unfold lc Inr have "s' = s3" by (simp add: s3_def Let_def)
      with tr3 evs show ?thesis by (simp add: forward_def)
    next
      case False
      with assms unfold lc Inr obtain out2 t2 evs2 where
        wc: "waitContainers fuel w (testRun.DockerClient r) containers (clock s3) =
               Some (out2, t2, evs2)"
        and s': "s' = logs evs2 (s3\<lparr>clock := t2\<rparr>)"
        by (auto simp: s3_def Let_def)
      from waitContainers_events [OF wc] have "list_all (\<lambda>e. \<not> cleanup_event e) evs2" .
      with tr3 evs s' show ?thesis by (simp add: forward_def trace_logs)
    qed
  qed
qed

lemma startServices_forward:
  assumes "startServices name logName msg cfgs fuel w r s = Some (out, s')"
    and "\<not> cleanup_step_name name"
  shows "forward s s'"
proof (cases "length (collectDockerComposeFiles cfgs) = 0")
  case True
  with assms show ?thesis
    by (auto simp: startServices_def Let_def forward_def trace_logs)
next
  case False
  let ?s1 = "logs [RunningStep name] s"
  let ?path = "filepath_Join w (testRun.OutPath r) logName"
  from assms(1) False obtain out2 s2 where
    dc: "dockerComposeUpWait fuel w r (collectDockerComposeFiles cfgs) ?path ?s1 = Some (out2, s2)"
    by (auto simp: startServices_def Let_def split: option.splits)
  have f1: "forward s ?s1"
    using assms(2) by (simp add: forward_def trace_logs)
  have f2: "forward ?s1 s2" by (rule dockerComposeUpWait_forward [OF dc])
  from assms(1) False dc obtain err where "s' = logs [StepDone name err] s2"
    by (auto simp: startServices_def Let_def split: outcome.splits option.splits)
  then have "forward s2 s'"
    using assms(2) by (simp add: forward_def trace_logs)
  with f1 f2 show ?thesis by (blast intro: forward_trans)
qed

lemma hook_forward: "\<not> cleanup_step_name name \<Longrightarrow> hook name s = (err, s') \<Longrightarrow> forward s s'"
  by (auto simp: hook_def forward_def trace_logs)

lemma test_forward: "test w r s = (err, s') \<Longrightarrow> forward s s'"
  by (auto simp: test_def Let_def forward_def trace_logs cleanup_step_name_def
      split: prod.splits)

lemma total_forward:
  assumes "\<And>s err s'. f s = (err, s') \<Longrightarrow> forward s s'"
    and "total f fuel w r s = Some (out, s')"
  shows "forward s s'"
  using assms by (auto simp: total_def split: prod.splits)

lemma run_steps_forward:
  assumes "\<And>step s out s'. step \<in> set sts \<Longrightarrow> step fuel w r s = Some (out, s') \<Longrightarrow> forward s s'"
    and "run_steps sts fuel w r s = Some (out, s')"
  shows "forward s s'"
  using assms
proof (induction sts arbitrary: s)
  case Nil
  then show ?case by (simp add: forward_refl)
next
  case (Cons step rest)
  from Cons.prems(2) obtain out1 s1 where st: "step fuel w r s = Some (out1, s1)"
    by (auto split: option.splits)
  have f1: "forward s s1" using Cons.prems(1) [of step s out1 s1] st by simp
  show ?case
  proof (cases "out1 = Returned None")
    case True
    with Cons.prems(2) st have "run_steps rest fuel w r s1 = Some (out, s')" by simp
    then have "forward s1 s'"
    proof (rule Cons.IH [rotated])
      fix st s2 out2 s3
      assume "st \<in> set rest" and "st fuel w r s2 = Some (out2, s3)"
      then show "forward s2 s3"
        using Cons.prems(1) [of st s2 out2 s3] by simp
    qed
    with f1 show ?thesis by (rule forward_trans)
  next
    case False
    with Cons.prems(2) st have "s' = s1"
      by (auto split: outcome.splits option.splits)
    with f1 show ?thesis by simp
  qed
qed

lemma steps_forward:
  assumes "run_steps steps fuel w r s = Some (out, s')"
  shows "forward s s'"
proof (rule run_steps_forward [OF _ assms])
  fix step :: "('a, 'b) step" and s out s'
  assume mem: "step \<in> set steps" and run: "step fuel w r s = Some (out, s')"
  have names: "\<not> cleanup_step_name ''pre-infrastructure''" "\<not> cleanup_step_name ''infrastructure''"
    "\<not> cleanup_step_name ''post-infrastructure''" "\<not> cleanup_step_name ''pre-tool''"
    "\<not> cleanup_step_name ''tool''" "\<not> cleanup_step_name ''post-tool''"
    "\<not> cleanup_step_name ''pre-test''" "\<not> cleanup_step_name ''post-test''"
    by (simp_all add: cleanup_step_name_def)
  from mem consider
      "step = total preInfrastructure" | "step = infrastructure" | "step = total postInfrastructure"
    | "step = total preTool" | "step = tool" | "step = total postTool"
    | "step = total preTest" | "step = (\<lambda>fuel w r. total (test w r) fuel w r)"
    | "step = total postTest"
    by auto
  then show "forward s s'"
  proof cases
    case 1
    with run names show ?thesis
      by (auto simp: preInfrastructure_def elim!: total_forward [rotated] intro: hook_forward)
  next
    case 2
    with run names show ?thesis
      by (auto simp: infrastructure_def intro: startServices_forward)
  next
    case 3
    with run names show ?thesis
      by (auto simp: postInfrastructure_def elim!: total_forward [rotated] intro: hook_forward)
  next
    case 4
    with run names show ?thesis
      by (auto simp: preTool_def elim!: total_forward [rotated] intro: hook_forward)
  next
    case 5
    with run names show ?thesis
      by (auto simp: tool_def intro: startServices_forward)
  next
    case 6
    with run names show ?thesis
      by (auto simp: postTool_def elim!: total_forward [rotated] intro: hook_forward)
  next
    case 7
    with run names show ?thesis
      by (auto simp: preTest_def elim!: total_forward [rotated] intro: hook_forward)
  next
    case 8
    with run show ?thesis
      by (auto elim!: total_forward [rotated] intro: test_forward)
  next
    case 9
    with run names show ?thesis
      by (auto simp: postTest_def elim!: total_forward [rotated] intro: hook_forward)
  qed
qed

section \<open>Properties of Run\<close>

lemma preCleanup_eq:
  "preCleanup s = (None, logs [RunningStep ''pre-cleanup'', StepDone ''pre-cleanup'' None] s)"
  by (simp add: preCleanup_def hook_def)

lemma postCleanup_eq:
  "postCleanup s = (None, logs [RunningStep ''post-cleanup'', StepDone ''post-cleanup'' None] s)"
  by (simp add: postCleanup_def hook_def)

lemma run_cleanupSteps_trace:
  assumes "run_cleanupSteps (cleanupSteps w) [] s = (errs, s')"
  shows "errs = non_nil [fst (cleanup w (snd (preCleanup s)))]"
    and "trace s' = trace s @ cleanup_phase (cleanupFns s) (fst (cleanup w (snd (preCleanup s))))"
    and "cleanupFns s' = cleanupFns s"
proof -
  define s1 where "s1 = logs [RunningStep ''pre-cleanup'', StepDone ''pre-cleanup'' None] s"
  have pre: "preCleanup s = (None, s1)"
    by (simp add: preCleanup_eq s1_def)
  have s1: "trace s1 = trace s @ [RunningStep ''pre-cleanup'', StepDone ''pre-cleanup'' None]"
    "cleanupFns s1 = cleanupFns s"
    by (simp_all add: s1_def logs_def)
  obtain cerr s2 where cl: "cleanup w s1 = (cerr, s2)" by (cases "cleanup w s1")
  note tr2 = cleanup_trace [OF cl]
  define s3 where "s3 = logs [RunningStep ''post-cleanup'', StepDone ''post-cleanup'' None] s2"
  have post: "postCleanup s2 = (None, s3)"
    by (simp add: postCleanup_eq s3_def)
  have "run_cleanupSteps (cleanupSteps w) [] s = (non_nil [cerr], s3)"
    using pre cl post by (cases cerr) (simp_all add: cleanupSteps_def)
  with assms have res: "errs = non_nil [cerr]" "s' = s3" by simp_all
  from res(1) cl pre show "errs = non_nil [fst (cleanup w (snd (preCleanup s)))]" by simp
  from res(2) tr2 s1 cl pre
  show "trace s' = trace s @ cleanup_phase (cleanupFns s) (fst (cleanup w (snd (preCleanup s))))"
    by (simp add: cleanup_phase_def s3_def trace_logs)
  from res(2) tr2 s1 show "cleanupFns s' = cleanupFns s"
    by (simp add: s3_def cleanupFns_logs)
qed

lemma count_forward_events:
  "list_all (\<lambda>e. \<not> cleanup_event e) evs \<Longrightarrow> cleanup_step_name name \<Longrightarrow>
   count_list evs (RunningStep name) = 0"
  by (induction evs) auto

lemma count_event_of: "count_list (map event_of fns) (RunningStep name) = 0"
proof (induction fns)
  case Nil
  show ?case by simp
next
  case (Cons fn fns)
  then show ?case by (cases fn) simp_all
qed

lemma count_cleanup_phase:
  "cleanup_step_name name \<Longrightarrow> count_list (cleanup_phase fns err) (RunningStep name) = 1"
  by (auto simp: cleanup_phase_def cleanup_step_name_def count_event_of)

lemma deferred_cleanup_eq:
  assumes "deferred_cleanup w walk s = (out, s')"
  shows "out = final_outcome walk (fst (cleanup w (snd (preCleanup s))))"
    and "trace s' = trace s @ cleanup_phase (cleanupFns s) (fst (cleanup w (snd (preCleanup s))))
           @ cleanup_log walk (fst (cleanup w (snd (preCleanup s))))"
    and "cleanupFns s' = cleanupFns s"
proof -
  let ?cerr = "fst (cleanup w (snd (preCleanup s)))"
  obtain errs s2 where rc: "run_cleanupSteps (cleanupSteps w) [] s = (errs, s2)"
    by (cases "run_cleanupSteps (cleanupSteps w) [] s")
  note facts = run_cleanupSteps_trace [OF rc]
  have join: "errors_Join (map Some errs) = errors_Join [?cerr]"
    using facts(1) by (cases ?cerr) (simp_all add: errors_Join_def)
  show "out = final_outcome walk ?cerr"
    using assms rc join
    by (cases "(walk, ?cerr)" rule: final_outcome.cases)
       (auto simp: deferred_cleanup_def split: if_splits)
  show "trace s' = trace s @ cleanup_phase (cleanupFns s) ?cerr @ cleanup_log walk ?cerr"
    using assms rc facts(1,2)
    by (cases "(walk, ?cerr)" rule: cleanup_log.cases)
       (auto simp: deferred_cleanup_def trace_logs split: if_splits outcome.splits option.splits)
  show "cleanupFns s' = cleanupFns s"
    using assms rc facts(3)
    by (cases "(walk, ?cerr)" rule: cleanup_log.cases)
       (auto simp: deferred_cleanup_def cleanupFns_logs split: if_splits outcome.splits option.splits)
qed

lemma count_cleanup_log: "count_list (cleanup_log walk cerr) (RunningStep name) = 0"
  by (cases "(walk, cerr)" rule: cleanup_log.cases) simp_all

text \<open>
  C2, as amended. On every exit path of \<open>Run\<close> behind the guard on the output folder (the
  folder did not exist and was created), the forward walk ended, by a return or by a
  panic, without any event of the cleanup; then pre-cleanup, cleanup (the registered
  closures, last registered first) and post-cleanup ran, each once and in this order. An
  error returned by the walk is what \<open>Run\<close> returns, the cleanup error being logged only; a
  walk that returned nil makes \<open>Run\<close> return the join of the cleanup errors.
\<close>

theorem Run_cleanup_exactly_once:
  assumes "\<not> Stat w (testRun.OutPath r)"
    and "MkdirAll w (testRun.OutPath r) = None"
    and "Run fuel w r s0 = Some (out, s')"
  shows "\<exists>walk s1 fw cerr.
      run_steps steps fuel w r
        ((logs [Os_Stat (testRun.OutPath r), Os_MkdirAll (testRun.OutPath r)] s0)
           \<lparr>goroutinePool := []\<rparr>) = Some (walk, s1)
    \<and> trace s1 = trace s0 @ [Os_Stat (testRun.OutPath r), Os_MkdirAll (testRun.OutPath r)] @ fw
    \<and> list_all (\<lambda>e. \<not> cleanup_event e) fw
    \<and> cerr = fst (cleanup w (snd (preCleanup s1)))
    \<and> trace s' = trace s1 @ cleanup_phase (cleanupFns s1) cerr @ cleanup_log walk cerr
    \<and> out = final_outcome walk cerr
    \<and> count_list (drop (length (trace s0)) (trace s')) (RunningStep ''pre-cleanup'') = 1
    \<and> count_list (drop (length (trace s0)) (trace s')) (RunningStep ''cleanup'') = 1
    \<and> count_list (drop (length (trace s0)) (trace s')) (RunningStep ''post-cleanup'') = 1"
proof -
  let ?p = "testRun.OutPath r"
  let ?s2 = "(logs [Os_Stat ?p, Os_MkdirAll ?p] s0)\<lparr>goroutinePool := []\<rparr>"
  have logs2: "logs [Os_MkdirAll ?p] (logs [Os_Stat ?p] s0) = logs [Os_Stat ?p, Os_MkdirAll ?p] s0"
    by (simp add: logs_def)
  from assms obtain walk s1 where
    walk: "run_steps steps fuel w r ?s2 = Some (walk, s1)"
    and dc: "deferred_cleanup w walk s1 = (out, s')"
    by (auto simp: Run_def Let_def logs2)
  have tr2: "trace ?s2 = trace s0 @ [Os_Stat ?p, Os_MkdirAll ?p]"
    by (simp add: logs_def)
  from steps_forward [OF walk] obtain fw where
    fw: "trace s1 = trace ?s2 @ fw" "list_all (\<lambda>e. \<not> cleanup_event e) fw"
    by (auto simp: forward_def)
  define cerr where "cerr = fst (cleanup w (snd (preCleanup s1)))"
  note d = deferred_cleanup_eq [OF dc, folded cerr_def]
  have tr': "trace s' = trace s0 @ ([Os_Stat ?p, Os_MkdirAll ?p] @ fw
      @ cleanup_phase (cleanupFns s1) cerr @ cleanup_log walk cerr)"
    using d(2) fw(1) tr2 by simp
  have names: "cleanup_step_name ''pre-cleanup''" "cleanup_step_name ''cleanup''"
    "cleanup_step_name ''post-cleanup''"
    by (simp_all add: cleanup_step_name_def)
  have count: "count_list (drop (length (trace s0)) (trace s')) (RunningStep name) = 1"
    if "cleanup_step_name name" for name
    using that tr' count_forward_events [OF fw(2) that] count_cleanup_phase [OF that]
    by (simp add: count_cleanup_log)
  from walk fw tr2 d(1,2) count [OF names(1)] count [OF names(2)] count [OF names(3)]
  show ?thesis
    by (intro exI [of _ walk] exI [of _ s1] exI [of _ fw] exI [of _ cerr])
       (simp add: cerr_def)
qed

lemma Second_nonzero: "Second \<noteq> 0"
  by (simp add: Second_def)

lemmas run_eval =
  Run_def Let_def total_def hook_def preInfrastructure_def postInfrastructure_def preTool_def
  postTool_def preTest_def postTest_def preCleanup_def postCleanup_def infrastructure_def
  tool_def startServices_def collectDockerComposeFiles_def dockerComposeUpWait_def
  startComposeUp_def waitContainers_def wg_Wait_def addErr_def goroutinePoolDead_def logs_def
  select_Done_After_def EqualFold_healthy_def toLower_def test_def timeBetweenLogs_def
  deferred_cleanup_def cleanupSteps_def cleanup_def run_cleanupFns_def errors_Join_def
  List.map_filter_simps numeral_eq_Suc Second_pos Second_nonzero

lemmas example_defs =
  example_world_def example_run_def initial_state_def example_Join_def container_def
  kafka_container_def healthy_client_def dead_client_def created_client_def dying_client_def

lemma Run_example:
  "Run 5 example_world (example_run ''conduit'' healthy_client) initial_state =
     Some (Returned (Some (Joined [Joined [New ''compose down failed'']])),
       \<lparr>cleanupFns =
          [CloseFile ''out/20250101120000_kafka-to-kafka_conduit/infrastructure.log'',
           StopContainers [''../infra/compose-kafka.yml'']],
        goroutinePool = [([''../infra/compose-kafka.yml''], 0)],
        clock = 4 * Second,
        trace =
          [Os_Stat ''out/20250101120000_kafka-to-kafka_conduit'',
           Os_MkdirAll ''out/20250101120000_kafka-to-kafka_conduit'',
           RunningStep ''pre-infrastructure'', StepDone ''pre-infrastructure'' None,
           RunningStep ''infrastructure'',
           Os_Create ''out/20250101120000_kafka-to-kafka_conduit/infrastructure.log'',
           Go_ComposeUp [''../infra/compose-kafka.yml''],
           Waited Second, Call_ComposePs [''../infra/compose-kafka.yml''],
           Waited Second, Call_ComposePs [''../infra/compose-kafka.yml''],
           Call_ContainerInspect ''c1'', Waited Second,
           Call_ContainerInspect ''c1'', Waited Second,
           Call_ContainerInspect ''c1'', Call_ContainerInspect ''c2'',
           StepDone ''infrastructure'' None,
           RunningStep ''post-infrastructure'', StepDone ''post-infrastructure'' None,
           RunningStep ''pre-tool'', StepDone ''pre-tool'' None,
           RunningStep ''tool'', StepDone ''tool'' None,
           RunningStep ''post-tool'', StepDone ''post-tool'' None,
           RunningStep ''pre-test'', StepDone ''pre-test'' None,
           RunningStep ''test'', StepDone ''test'' None,
           RunningStep ''post-test'', StepDone ''post-test'' None,
           RunningStep ''pre-cleanup'', StepDone ''pre-cleanup'' None,
           RunningStep ''cleanup'',
           Call_ComposeDown [''../infra/compose-kafka.yml''],
           File_Close ''out/20250101120000_kafka-to-kafka_conduit/infrastructure.log'',
           StepDone ''cleanup'' (Some (Joined [New ''compose down failed''])),
           RunningStep ''post-cleanup'', StepDone ''post-cleanup'' None]\<rparr>)"
  by (simp add: run_eval example_defs)

theorem Run_cleanup_exactly_once_witness:
  "\<not> Stat example_world (testRun.OutPath (example_run ''conduit'' healthy_client))
   \<and> MkdirAll example_world (testRun.OutPath (example_run ''conduit'' healthy_client)) = None
   \<and> (\<exists>s'. Run 5 example_world (example_run ''conduit'' healthy_client) initial_state =
            Some (Returned (Some (Joined [Joined [New ''compose down failed'']])), s')
         \<and> count_list (trace s') (RunningStep ''pre-cleanup'') = 1
         \<and> count_list (trace s') (RunningStep ''cleanup'') = 1
         \<and> count_list (trace s') (RunningStep ''post-cleanup'') = 1)"
proof -
  have guard: "\<not> Stat example_world (testRun.OutPath (example_run ''conduit'' healthy_client))"
    by (simp add: example_defs)
  have mkdir: "MkdirAll example_world (testRun.OutPath (example_run ''conduit'' healthy_client)) = None"
    by (simp add: example_defs)
  from Run_cleanup_exactly_once [OF guard mkdir Run_example] guard mkdir Run_example
  show ?thesis
    by (simp add: initial_state_def)
qed

text \<open>
  C2 as stated fails where the output folder exists already: \<open>Run\<close> returns before the
  cleanup is deferred, and no cleanup step runs on that exit path.
\<close>

theorem Run_existing_folder_no_cleanup:
  "Run 5 example_world (example_run ''old'' healthy_client) initial_state =
     Some (Returned (Some (OutputFolderExists ''out/20250101120000_kafka-to-kafka_old'')),
           \<lparr>cleanupFns = [], goroutinePool = [], clock = 0,
            trace = [Os_Stat ''out/20250101120000_kafka-to-kafka_old'']\<rparr>)
   \<and> count_list [Os_Stat ''out/20250101120000_kafka-to-kafka_old''] (RunningStep ''pre-cleanup'') = 0
   \<and> count_list [Os_Stat ''out/20250101120000_kafka-to-kafka_old''] (RunningStep ''cleanup'') = 0
   \<and> count_list [Os_Stat ''out/20250101120000_kafka-to-kafka_old''] (RunningStep ''post-cleanup'') = 0"
  by (simp add: Run_def Let_def logs_def example_defs)




section \<open>Properties of compose-up-and-wait\<close>

lemma pollContainer_dead:
  assumes "client c t = Inr resp" and "Dead (State resp)"
  shows "pollContainer (Suc fuel) w client c t =
           Some (Returned (Some (New (''container '' @ ContainerJSON.Name resp @ '' is dead''))),
                 t, [Call_ContainerInspect c])"
  using assms by simp

lemma pollContainer_healthy:
  assumes "client c t = Inr resp" and "\<not> Dead (State resp)"
    and "Health (State resp) = Some h" and "EqualFold_healthy (Status h)"
  shows "pollContainer (Suc fuel) w client c t = Some (Returned None, t, [Call_ContainerInspect c])"
  using assms by simp

lemma pollContainer_running:
  assumes "client c t = Inr resp" and "\<not> Dead (State resp)"
    and "Health (State resp) = None" and "Running (State resp)"
  shows "pollContainer (Suc fuel) w client c t = Some (Returned None, t, [Call_ContainerInspect c])"
  using assms by simp

lemma pollContainer_waits:
  assumes "client c t = Inr resp" and "\<not> Dead (State resp)"
    and "Health (State resp) = Some h" and "\<not> EqualFold_healthy (Status h)"
  shows "pollContainer (Suc fuel) w client c t =
           (case select_Done_After w t Second of
              (Some err, t') \<Rightarrow>
                Some (Returned (Some err), t', [Call_ContainerInspect c, Waited (t' - t)])
            | (None, t') \<Rightarrow>
                map_option
                  (\<lambda>(out, t'', evs). (out, t'', [Call_ContainerInspect c, Waited (t' - t)] @ evs))
                  (pollContainer fuel w client c t'))"
  using assms by simp

lemma pollContainer_nil_health:
  assumes "client c t = Inr resp" and "\<not> Dead (State resp)"
    and "Health (State resp) = None" and "\<not> Running (State resp)"
  shows "pollContainer (Suc fuel) w client c t =
           Some (Panicked ''nil pointer dereference'', t, [Call_ContainerInspect c])"
  using assms by simp

text \<open>
  C4. The code departs from the claim for a container that has no health check and is
  neither dead nor running (created, exited, restarting): the iteration does not wait and
  re-check, it dereferences the nil \<open>Health\<close> in its log line and panics. Here the
  container \<open>c2\<close> of the third client, inspected once.
\<close>

theorem pollContainer_created_container_panics:
  "created_client ''c2'' 0 =
     Inr \<lparr>ContainerJSON.Name = ''/zookeeper'',
          State = \<lparr>Running = False, Dead = False, Health = None\<rparr>\<rparr>
   \<and> pollContainer 1 example_world created_client ''c2'' 0 =
       Some (Panicked ''nil pointer dereference'', 0, [Call_ContainerInspect ''c2''])"
  by (simp add: created_client_def container_def)

lemma Run_created_example:
  "\<exists>s'. Run 5 example_world (example_run ''conduit'' created_client) initial_state =
     Some (Panicked ''nil pointer dereference'', s')"
  by (simp add: run_eval example_defs)

lemma foldl_max_ge: "(t0::nat) \<le> foldl max t0 ts"
proof (induction ts arbitrary: t0)
  case Nil
  show ?case by simp
next
  case (Cons t ts)
  have "t0 \<le> max t0 t" by simp
  also have "\<dots> \<le> foldl max (max t0 t) ts" by (rule Cons.IH)
  finally show ?case by simp
qed

lemma foldl_max_mem: "t \<in> set ts \<Longrightarrow> (t::nat) \<le> foldl max t0 ts"
proof (induction ts arbitrary: t0)
  case Nil
  then show ?case by simp
next
  case (Cons u us)
  show ?case
  proof (cases "t = u")
    case True
    have "t \<le> max t0 u" using True by simp
    also have "\<dots> \<le> foldl max (max t0 u) us" by (rule foldl_max_ge)
    finally show ?thesis by simp
  next
    case False
    with Cons.prems have "t \<in> set us" by simp
    from Cons.IH [OF this] show ?thesis by simp
  qed
qed

lemma map_filter_empty: "(\<And>x. x \<in> set xs \<Longrightarrow> f x = None) \<Longrightarrow> List.map_filter f xs = []"
  by (induction xs) (simp_all add: List.map_filter_simps)

lemma wg_Wait_no_panic:
  assumes "list_all (\<lambda>(out, t, evs). panic_of out = None) tasks"
  shows "wg_Wait tasks t0 =
           (Returned (foldl addErr None (map (\<lambda>(out, t, evs). error_of out)
                       (sort_key (\<lambda>(out, t, evs). t) tasks))),
            foldl max t0 (map (\<lambda>(out, t, evs). t) tasks),
            concat (map (\<lambda>(out, t, evs). evs) tasks))"
proof -
  have "List.map_filter (\<lambda>(out, t, evs). panic_of out) (sort_key (\<lambda>(out, t, evs). t) tasks) = []"
    using assms by (intro map_filter_empty) (auto simp: list_all_iff)
  then show ?thesis by (simp add: wg_Wait_def Let_def)
qed

text \<open>
  Two tasks that fail: the pool's error is the join of the join of the first error with
  the second.
\<close>

lemma wg_Wait_two_errors:
  "wg_Wait [(Returned (Some (New ''container /b is dead'')), 2, []),
            (Returned (Some (New ''container /a is dead'')), 1, [])] 0 =
     (Returned (Some (Joined [Joined [New ''container /a is dead''],
                              New ''container /b is dead''])), 2, [])"
  by (simp add: wg_Wait_def addErr_def errors_Join_def List.map_filter_simps)

lemma unwraps_to_refl: "unwraps_to e e"
  by (cases e) simp_all

lemma foldl_addErr_keeps:
  "unwraps_to a e \<Longrightarrow> \<exists>err. foldl addErr (Some a) errs = Some err \<and> unwraps_to err e"
proof (induction errs arbitrary: a)
  case Nil
  then show ?case by simp
next
  case (Cons x errs)
  show ?case
  proof (cases x)
    case None
    with Cons show ?thesis by (simp add: addErr_def)
  next
    case (Some e')
    then have "addErr (Some a) x = Some (Joined [a, e'])"
      by (simp add: addErr_def errors_Join_def)
    moreover have "unwraps_to (Joined [a, e']) e"
      using Cons.prems by simp
    ultimately show ?thesis
      using Cons.IH [of "Joined [a, e']"] by simp
  qed
qed

lemma foldl_addErr_holds:
  "Some e \<in> set errs \<Longrightarrow> \<exists>err. foldl addErr acc errs = Some err \<and> unwraps_to err e"
proof (induction errs arbitrary: acc)
  case Nil
  then show ?case by simp
next
  case (Cons x errs)
  show ?case
  proof (cases "x = Some e")
    case True
    then obtain a where "addErr acc x = Some a" "unwraps_to a e"
      by (cases acc) (simp_all add: addErr_def errors_Join_def unwraps_to_refl)
    then show ?thesis
      using foldl_addErr_keeps [of a e errs] by simp
  next
    case False
    with Cons.prems have "Some e \<in> set errs" by simp
    from Cons.IH [OF this] show ?thesis by simp
  qed
qed

lemma pollContainer_more_fuel:
  "pollContainer fuel w client c t = Some res \<Longrightarrow> pollContainer (fuel + k) w client c t = Some res"
proof (induction fuel arbitrary: t res)
  case 0
  then show ?case by simp
next
  case (Suc fuel)
  show ?case
  proof (cases "client c t")
    case (Inl err)
    with Suc.prems show ?thesis by simp
  next
    case (Inr resp)
    obtain e1 t1 where sel: "select_Done_After w t Second = (e1, t1)"
      by (cases "select_Done_After w t Second")
    show ?thesis
    proof (cases "pollContainer fuel w client c t1")
      case None
      with Suc.prems Inr sel show ?thesis
        by (auto split: if_splits option.splits)
    next
      case (Some res1)
      from Suc.IH [OF Some] have "pollContainer (fuel + k) w client c t1 = Some res1" .
      with Suc.prems Inr sel Some show ?thesis
        by (auto split: if_splits option.splits)
    qed
  qed
qed

text \<open>
  A poll whose first \<open>n\<close> inspections, one second apart, find the container not ready,
  and whose next inspection finds it dead, ends there with the error naming the container.
\<close>

lemma pollContainer_dead_at:
  assumes "\<forall>i < n. not_ready (client c (t0 + i * Second))"
    and "case Done w of None \<Rightarrow> True | Some cancelled_at \<Rightarrow> t0 + n * Second \<le> cancelled_at"
    and "client c (t0 + n * Second) = Inr resp"
    and "Dead (State resp)"
  shows "pollContainer (Suc n) w client c t0 =
           Some (Returned (Some (New (''container '' @ ContainerJSON.Name resp @ '' is dead''))),
                 t0 + n * Second,
                 concat (replicate n [Call_ContainerInspect c, Waited Second])
                 @ [Call_ContainerInspect c])"
  using assms
proof (induction n arbitrary: t0)
  case 0
  then show ?case by simp
next
  case (Suc n)
  from Suc.prems(1) have "not_ready (client c (t0 + 0 * Second))" by blast
  then obtain resp0 h where r0: "client c t0 = Inr resp0" "\<not> Dead (State resp0)"
    "Health (State resp0) = Some h" "\<not> EqualFold_healthy (Status h)"
    by (auto simp: not_ready_def split: sum.splits option.splits)
  have sel: "select_Done_After w t0 Second = (None, t0 + Second)"
    using Suc.prems(2) Second_pos by (auto simp: select_Done_After_def split: option.splits)
  have nr: "\<forall>i < n. not_ready (client c (t0 + Second + i * Second))"
  proof (intro allI impI)
    fix i
    assume "i < n"
    then have "Suc i < Suc n" by simp
    with Suc.prems(1) have "not_ready (client c (t0 + Suc i * Second))" by blast
    then show "not_ready (client c (t0 + Second + i * Second))" by (simp add: ac_simps)
  qed
  have dn: "case Done w of None \<Rightarrow> True
            | Some cancelled_at \<Rightarrow> t0 + Second + n * Second \<le> cancelled_at"
    using Suc.prems(2) by (simp add: ac_simps split: option.splits)
  have rs: "client c (t0 + Second + n * Second) = Inr resp"
    using Suc.prems(3) by (simp add: ac_simps)
  note IH = Suc.IH [OF nr dn rs Suc.prems(4)]
  have "pollContainer (Suc (Suc n)) w client c t0 =
      map_option
        (\<lambda>(out, t'', evs). (out, t'', [Call_ContainerInspect c, Waited Second] @ evs))
        (pollContainer (Suc n) w client c (t0 + Second))"
    using pollContainer_waits [where fuel = "Suc n" and w = w and client = client and c = c
        and t = t0 and resp = resp0 and h = h] r0 sel
    by (simp del: pollContainer.simps)
  with IH show ?case by (simp add: ac_simps)
qed

text \<open>
  C5, as amended. A container that reports dead at an inspection of its poll ends that
  poll there, with an error naming it. The step waits for every other poll all the same:
  it returns only once all polls have ended (no earlier than any of them), and then, no
  poll having panicked, it fails with the error "failed to start containers" wrapping the
  pool's error, in which the dead container's error is found by unwrapping.
\<close>

theorem waitContainers_dead_container:
  assumes "those (map (\<lambda>c. pollContainer fuel w client c t0) containers) = Some tasks"
    and "list_all (\<lambda>(out, t, evs). panic_of out = None) tasks"
    and "c \<in> set containers"
    and "\<forall>i < n. not_ready (client c (t0 + i * Second))"
    and "case Done w of None \<Rightarrow> True | Some cancelled_at \<Rightarrow> t0 + n * Second \<le> cancelled_at"
    and "client c (t0 + n * Second) = Inr resp"
    and "Dead (State resp)"
  shows "pollContainer fuel w client c t0 =
           Some (Returned (Some (New (''container '' @ ContainerJSON.Name resp @ '' is dead''))),
                 t0 + n * Second,
                 concat (replicate n [Call_ContainerInspect c, Waited Second])
                 @ [Call_ContainerInspect c])
    \<and> (\<exists>err t'.
          waitContainers fuel w client containers t0 =
            Some (Returned (Some (Wrap ''failed to start containers'' err)), t',
                  concat (map (\<lambda>(out, t, evs). evs) tasks))
        \<and> unwraps_to err (New (''container '' @ ContainerJSON.Name resp @ '' is dead''))
        \<and> t' = foldl max t0 (map (\<lambda>(out, t, evs). t) tasks)
        \<and> t0 + n * Second \<le> t'
        \<and> list_all (\<lambda>(out, t, evs). t \<le> t') tasks)"
proof -
  let ?dead = "New (''container '' @ ContainerJSON.Name resp @ '' is dead'')"
  let ?task = "(Returned (Some ?dead), t0 + n * Second,
      concat (replicate n [Call_ContainerInspect c, Waited Second]) @ [Call_ContainerInspect c])"
  let ?t' = "foldl max t0 (map (\<lambda>(out, t, evs). t) tasks)"
  from assms(1) have m: "map (\<lambda>c. pollContainer fuel w client c t0) containers = map Some tasks"
    by (simp add: those_Some_iff)
  from m assms(3) have "pollContainer fuel w client c t0 \<in> Some ` set tasks"
    by (metis image_eqI list.set_map)
  then obtain task where task: "task \<in> set tasks" "pollContainer fuel w client c t0 = Some task"
    by auto
  have at: "pollContainer (Suc n) w client c t0 = Some ?task"
    using assms(4-7) by (rule pollContainer_dead_at)
  have poll: "pollContainer fuel w client c t0 = Some ?task"
  proof (cases "fuel \<le> Suc n")
    case True
    then obtain k where "Suc n = fuel + k" by (metis le_Suc_ex)
    with pollContainer_more_fuel [OF task(2), of k] at have "task = ?task" by simp
    with task(2) show ?thesis by simp
  next
    case False
    then obtain k where "fuel = Suc n + k" by (metis le_Suc_ex nat_le_linear)
    with pollContainer_more_fuel [OF at, of k] show ?thesis by simp
  qed
  with task have mem: "?task \<in> set tasks" by simp
  let ?ended = "sort_key (\<lambda>(out, t, evs). t) tasks"
  from mem have "Some ?dead \<in> set (map (\<lambda>(out, t, evs). error_of out) ?ended)"
    by (force simp: image_iff)
  from foldl_addErr_holds [OF this, of None] obtain err where
    err: "foldl addErr None (map (\<lambda>(out, t, evs). error_of out) ?ended) = Some err"
      "unwraps_to err ?dead"
    by blast
  have wg: "wg_Wait tasks t0 =
      (Returned (Some err), ?t', concat (map (\<lambda>(out, t, evs). evs) tasks))"
    using err(1) by (simp add: wg_Wait_no_panic [OF assms(2)])
  have wc: "waitContainers fuel w client containers t0 =
      Some (Returned (Some (Wrap ''failed to start containers'' err)), ?t',
            concat (map (\<lambda>(out, t, evs). evs) tasks))"
    using assms(1) wg by (simp add: waitContainers_def)
  have late: "list_all (\<lambda>(out, t, evs). t \<le> ?t') tasks"
    by (auto simp: list_all_iff intro!: foldl_max_mem) (force simp: image_iff)
  from late mem have after: "t0 + n * Second \<le> ?t'"
    by (auto simp: list_all_iff)
  from wc err(2) late after have "\<exists>err t'.
          waitContainers fuel w client containers t0 =
            Some (Returned (Some (Wrap ''failed to start containers'' err)), t',
                  concat (map (\<lambda>(out, t, evs). evs) tasks))
        \<and> unwraps_to err ?dead
        \<and> t' = ?t'
        \<and> t0 + n * Second \<le> t'
        \<and> list_all (\<lambda>(out, t, evs). t \<le> t') tasks"
    by (intro exI [of _ err] exI [of _ ?t'] conjI refl)
  with poll show ?thesis by (intro conjI)
qed

lemma poll_c1_example:
  "pollContainer 5 example_world dead_client ''c1'' (2 * Second) =
     Some (Returned None, 4 * Second,
           [Call_ContainerInspect ''c1'', Waited Second,
            Call_ContainerInspect ''c1'', Waited Second,
            Call_ContainerInspect ''c1''])"
  by (simp add: run_eval example_defs)

lemma poll_c2_example:
  "pollContainer 5 example_world dead_client ''c2'' (2 * Second) =
     Some (Returned (Some (New ''container /zookeeper is dead'')), 2 * Second,
           [Call_ContainerInspect ''c2''])"
  by (simp add: run_eval example_defs)

lemma dying_c1_example:
  "pollContainer 5 example_world dying_client ''c1'' (2 * Second) =
     Some (Returned None, 4 * Second,
           [Call_ContainerInspect ''c1'', Waited Second,
            Call_ContainerInspect ''c1'', Waited Second,
            Call_ContainerInspect ''c1''])"
  by (simp add: run_eval example_defs)

lemma dying_c2_example:
  "pollContainer 5 example_world dying_client ''c2'' (2 * Second) =
     Some (Returned (Some (New ''container /zookeeper is dead'')), 3 * Second,
           [Call_ContainerInspect ''c2'', Waited Second, Call_ContainerInspect ''c2''])"
  by (simp add: run_eval example_defs)

theorem waitContainers_dead_container_witness:
  "those (map (\<lambda>c. pollContainer 5 example_world dying_client c (2 * Second)) [''c1'', ''c2'']) =
     Some [(Returned None, 4 * Second,
            [Call_ContainerInspect ''c1'', Waited Second,
             Call_ContainerInspect ''c1'', Waited Second,
             Call_ContainerInspect ''c1'']),
           (Returned (Some (New ''container /zookeeper is dead'')), 3 * Second,
            [Call_ContainerInspect ''c2'', Waited Second, Call_ContainerInspect ''c2''])]
   \<and> not_ready (dying_client ''c2'' (2 * Second))
   \<and> dying_client ''c2'' (3 * Second) =
       Inr \<lparr>ContainerJSON.Name = ''/zookeeper'',
            State = \<lparr>Running = False, Dead = True, Health = Some \<lparr>Status = ''starting''\<rparr>\<rparr>\<rparr>
   \<and> (\<exists>err.
         waitContainers 5 example_world dying_client [''c1'', ''c2''] (2 * Second) =
           Some (Returned (Some (Wrap ''failed to start containers'' err)), 4 * Second,
                 [Call_ContainerInspect ''c1'', Waited Second,
                  Call_ContainerInspect ''c1'', Waited Second,
                  Call_ContainerInspect ''c1'',
                  Call_ContainerInspect ''c2'', Waited Second, Call_ContainerInspect ''c2''])
       \<and> unwraps_to err (New ''container /zookeeper is dead''))"
proof -
  let ?tasks = "[(Returned None, 4 * Second,
            [Call_ContainerInspect ''c1'', Waited Second,
             Call_ContainerInspect ''c1'', Waited Second,
             Call_ContainerInspect ''c1'']),
           (Returned (Some (New ''container /zookeeper is dead'')), 3 * Second,
            [Call_ContainerInspect ''c2'', Waited Second, Call_ContainerInspect ''c2''])]"
  let ?resp = "\<lparr>ContainerJSON.Name = ''/zookeeper'',
            State = \<lparr>Running = False, Dead = True, Health = Some \<lparr>Status = ''starting''\<rparr>\<rparr>\<rparr>"
  have polls: "those (map (\<lambda>c. pollContainer 5 example_world dying_client c (2 * Second))
      [''c1'', ''c2'']) = Some ?tasks"
    by (simp add: dying_c1_example dying_c2_example)
  have quiet: "list_all (\<lambda>(out, t, evs). panic_of out = None) ?tasks" by simp
  have mem: "''c2'' \<in> set [''c1'', ''c2'']" by simp
  have first: "not_ready (dying_client ''c2'' (2 * Second))"
    by (simp add: not_ready_def run_eval example_defs)
  then have nr: "\<forall>i < 1. not_ready (dying_client ''c2'' (2 * Second + i * Second))"
    by simp
  have dn: "case Done example_world of None \<Rightarrow> True
            | Some cancelled_at \<Rightarrow> 2 * Second + 1 * Second \<le> cancelled_at"
    by (simp add: example_world_def)
  have third: "dying_client ''c2'' (3 * Second) = Inr ?resp"
    by (simp add: run_eval example_defs)
  have resp: "dying_client ''c2'' (2 * Second + 1 * Second) = Inr ?resp"
    by (simp add: run_eval example_defs)
  have dead: "Dead (State ?resp)" by simp
  have t': "foldl max (2 * Second) (map (\<lambda>(out, t, evs). t) ?tasks) = 4 * Second"
    by simp
  from waitContainers_dead_container [OF polls quiet mem nr dn resp dead]
  have "\<exists>err.
         waitContainers 5 example_world dying_client [''c1'', ''c2''] (2 * Second) =
           Some (Returned (Some (Wrap ''failed to start containers'' err)), 4 * Second,
                 [Call_ContainerInspect ''c1'', Waited Second,
                  Call_ContainerInspect ''c1'', Waited Second,
                  Call_ContainerInspect ''c1'',
                  Call_ContainerInspect ''c2'', Waited Second, Call_ContainerInspect ''c2''])
       \<and> unwraps_to err (New ''container /zookeeper is dead'')"
    unfolding t' by simp
  with polls first third show ?thesis by (intro conjI)
qed

text \<open>
  C5 as stated fails: \<open>c2\<close> reports dead, and its poll ends, at the second second; the
  step returns its failure at the fourth, when the poll of \<open>c1\<close> has ended.
\<close>

theorem waitContainers_waits_for_other_polls:
  "pollContainer 5 example_world dead_client ''c2'' (2 * Second) =
     Some (Returned (Some (New ''container /zookeeper is dead'')), 2 * Second,
           [Call_ContainerInspect ''c2''])
   \<and> pollContainer 5 example_world dead_client ''c1'' (2 * Second) =
     Some (Returned None, 4 * Second,
           [Call_ContainerInspect ''c1'', Waited Second,
            Call_ContainerInspect ''c1'', Waited Second,
            Call_ContainerInspect ''c1''])
   \<and> waitContainers 5 example_world dead_client [''c1'', ''c2''] (2 * Second) =
     Some (Returned (Some (Wrap ''failed to start containers''
                            (Joined [New ''container /zookeeper is dead'']))),
           4 * Second,
           [Call_ContainerInspect ''c1'', Waited Second,
            Call_ContainerInspect ''c1'', Waited Second,
            Call_ContainerInspect ''c1'', Call_ContainerInspect ''c2''])"
  by (simp add: poll_c1_example poll_c2_example waitContainers_def wg_Wait_def addErr_def
      List.map_filter_simps errors_Join_def Second_nonzero)

text \<open>
  While a poll has not ended the step has not returned, whatever the other polls found.
\<close>

lemma waitContainers_blocked:
  assumes "pollContainer fuel w client c t0 = None" and "c \<in> set containers"
  shows "waitContainers fuel w client containers t0 = None"
proof -
  have "those (map (\<lambda>c. pollContainer fuel w client c t0) containers) = None"
  proof (rule ccontr)
    assume "those (map (\<lambda>c. pollContainer fuel w client c t0) containers) \<noteq> None"
    then obtain tasks where
      "map (\<lambda>c. pollContainer fuel w client c t0) containers = map Some tasks"
      by (auto simp: those_Some_iff)
    then have "pollContainer fuel w client c t0 \<in> Some ` set tasks"
      using assms(2) by (metis image_eqI list.set_map)
    with assms(1) show False by auto
  qed
  then show ?thesis by (simp add: waitContainers_def)
qed







section \<open>Properties of the collectors\<close>

lemma set_map_filter: "set (List.map_filter f xs) = {y. \<exists>x \<in> set xs. f x = Some y}"
  by (induction xs) (auto simp: List.map_filter_simps split: option.splits)

lemma fieldValue_key:
  assumes "fieldValue L m n = Some (k, v)"
  shows "k = n \<or> EqualFold L k n"
proof (cases "map_of m n")
  case None
  with assms have "List.find (\<lambda>(k, v). EqualFold L k n) m = Some (k, v)"
    by (simp add: fieldValue_def)
  then show ?thesis by (auto simp: find_Some_iff)
next
  case (Some v')
  with assms show ?thesis by (simp add: fieldValue_def)
qed

lemma fieldValue_exact:
  assumes "n \<in> fst ` set m"
  shows "\<exists>v. fieldValue L m n = Some (n, v)"
proof -
  from assms obtain v where "map_of m n = Some v"
    by (metis domD dom_map_of_conv_image_fst)
  then show ?thesis by (simp add: fieldValue_def)
qed

lemma unusedKeys_unknown:
  assumes "k \<in> fst ` set m" and "\<forall>n \<in> set names. k \<noteq> n \<and> \<not> EqualFold L k n"
  shows "k \<in> set (unusedKeys L m names)"
proof -
  have "k \<notin> fst ` set (List.map_filter (fieldValue L m) names)"
  proof
    assume "k \<in> fst ` set (List.map_filter (fieldValue L m) names)"
    then obtain v n where "n \<in> set names" "fieldValue L m n = Some (k, v)"
      by (auto simp: set_map_filter)
    with fieldValue_key [of L m n k v] assms(2) show False by auto
  qed
  with assms(1) show ?thesis by (auto simp: unusedKeys_def)
qed

lemma unusedKeys_known:
  assumes "set (map fst m) \<subseteq> set names"
  shows "unusedKeys L m names = []"
proof -
  have "k \<in> fst ` set (List.map_filter (fieldValue L m) names)" if "k \<in> fst ` set m" for k
  proof -
    from that assms have "k \<in> set names" by auto
    moreover from fieldValue_exact [OF that] obtain v where "fieldValue L m k = Some (k, v)"
      by blast
    ultimately have "(k, v) \<in> set (List.map_filter (fieldValue L m) names)"
      by (auto simp: set_map_filter)
    then show ?thesis by force
  qed
  then show ?thesis by (auto simp: unusedKeys_def filter_empty_conv)
qed

lemma Decode_unused:
  "unusedKeys L m configFields \<noteq> [] \<Longrightarrow> Decode L m cfg = Inl decodeError"
  by (simp add: Decode_def split: sum.splits)

lemma Decode_field_error:
  assumes "decodeField L m ''url'' decodeString (URL cfg) = Inl e1
     \<or> decodeField L m ''scrape-interval'' decodeDuration (ScrapeInterval cfg) = Inl e2
     \<or> decodeField L m ''queries'' decodeQueries (Queries cfg) = Inl e3"
  shows "Decode L m cfg = Inl decodeError"
  using assms by (auto simp: Decode_def split: sum.splits)

lemma Decode_ok:
  assumes "decodeField L m ''url'' decodeString (URL cfg) = Inr u"
    and "decodeField L m ''scrape-interval'' decodeDuration (ScrapeInterval cfg) = Inr i"
    and "decodeField L m ''queries'' decodeQueries (Queries cfg) = Inr q"
  shows "Decode L m cfg =
     (if unusedKeys L m configFields = [] then Inr \<lparr>URL = u, ScrapeInterval = i, Queries = q\<rparr>
      else Inl decodeError)"
  using assms by (simp add: Decode_def)

text \<open>
  C9, as amended. \<open>parseConfig\<close> fails when the bag has a key that is none of \<open>url\<close>,
  \<open>scrape-interval\<close> and \<open>queries\<close> and matches none of them, when the value given for a
  field cannot be decoded, and when the URL decoded (the empty string when none is given)
  does not parse. When every key is one of the three names, every value decodes and the
  URL parses, it succeeds with the decoded values. A field no key names keeps its default:
  one second for the scrape interval, and the empty string for the URL, which is not
  required.
\<close>

theorem parseConfig_outcome:
  "(k \<in> fst ` set settings \<and> (\<forall>n \<in> set configFields. k \<noteq> n \<and> \<not> EqualFold L k n) \<longrightarrow>
      isl (parseConfig L settings))
   \<and> (decodeField L settings ''url'' decodeString [] = Inl e1
        \<or> decodeField L settings ''scrape-interval'' decodeDuration (int Second) = Inl e2
        \<or> decodeField L settings ''queries'' decodeQueries [] = Inl e3 \<longrightarrow>
      isl (parseConfig L settings))
   \<and> (decodeField L settings ''url'' decodeString [] = Inr u \<and> url_Parse L u \<noteq> None \<longrightarrow>
      isl (parseConfig L settings))
   \<and> (set (map fst settings) \<subseteq> set configFields
        \<and> decodeField L settings ''url'' decodeString [] = Inr u
        \<and> decodeField L settings ''scrape-interval'' decodeDuration (int Second) = Inr i
        \<and> decodeField L settings ''queries'' decodeQueries [] = Inr q
        \<and> url_Parse L u = None \<longrightarrow>
      parseConfig L settings = Inr \<lparr>URL = u, ScrapeInterval = i, Queries = q\<rparr>)
   \<and> (fieldValue L settings ''scrape-interval'' = None \<longrightarrow>
      decodeField L settings ''scrape-interval'' decodeDuration (int Second) = Inr (int Second))
   \<and> (fieldValue L settings ''url'' = None \<longrightarrow>
      decodeField L settings ''url'' decodeString [] = Inr [])"
proof (intro conjI impI)
  assume "k \<in> fst ` set settings \<and> (\<forall>n \<in> set configFields. k \<noteq> n \<and> \<not> EqualFold L k n)"
  then have "k \<in> set (unusedKeys L settings configFields)"
    by (intro unusedKeys_unknown) simp_all
  then have "unusedKeys L settings configFields \<noteq> []" by auto
  then show "isl (parseConfig L settings)"
    by (simp add: parseConfig_def Decode_unused)
next
  assume "decodeField L settings ''url'' decodeString [] = Inl e1
        \<or> decodeField L settings ''scrape-interval'' decodeDuration (int Second) = Inl e2
        \<or> decodeField L settings ''queries'' decodeQueries [] = Inl e3"
  then have "Decode L settings defaultConfig = Inl decodeError"
    by (intro Decode_field_error [of _ _ _ e1 e2 e3]) (simp add: defaultConfig_def)
  then show "isl (parseConfig L settings)"
    by (simp add: parseConfig_def)
next
  assume a: "decodeField L settings ''url'' decodeString [] = Inr u \<and> url_Parse L u \<noteq> None"
  show "isl (parseConfig L settings)"
  proof (cases "Decode L settings defaultConfig")
    case (Inl err)
    then show ?thesis by (simp add: parseConfig_def)
  next
    case (Inr cfg)
    with a have "URL cfg = u"
      by (auto simp: Decode_def defaultConfig_def split: sum.splits if_splits)
    with a Inr show ?thesis
      by (auto simp: parseConfig_def parseURL_def)
  qed
next
  assume a: "set (map fst settings) \<subseteq> set configFields
        \<and> decodeField L settings ''url'' decodeString [] = Inr u
        \<and> decodeField L settings ''scrape-interval'' decodeDuration (int Second) = Inr i
        \<and> decodeField L settings ''queries'' decodeQueries [] = Inr q
        \<and> url_Parse L u = None"
  then have "unusedKeys L settings configFields = []"
    by (intro unusedKeys_known) simp
  with a have "Decode L settings defaultConfig = Inr \<lparr>URL = u, ScrapeInterval = i, Queries = q\<rparr>"
    by (simp add: Decode_ok defaultConfig_def)
  with a show "parseConfig L settings = Inr \<lparr>URL = u, ScrapeInterval = i, Queries = q\<rparr>"
    by (simp add: parseConfig_def parseURL_def)
next
  assume "fieldValue L settings ''scrape-interval'' = None"
  then show "decodeField L settings ''scrape-interval'' decodeDuration (int Second) = Inr (int Second)"
    by (simp add: decodeField_def)
next
  assume "fieldValue L settings ''url'' = None"
  then show "decodeField L settings ''url'' decodeString [] = Inr []"
    by (simp add: decodeField_def)
qed

lemmas decode_eval =
  parseConfig_def parseURL_def Decode_def decodeField_def fieldValue_def unusedKeys_def
  configFields_def defaultConfig_def decodeQueryConfig_def decodeError_def
  List.map_filter_simps EqualFold_healthy_def toLower_def example_lib_def

lemma parseConfig_example:
  "parseConfig example_lib [(''url'', VString ''http://localhost:8080/metrics'')] =
     Inr \<lparr>URL = ''http://localhost:8080/metrics'', ScrapeInterval = int Second, Queries = []\<rparr>"
  by (simp add: decode_eval)

lemma parseConfig_pipelines_example:
  "parseConfig example_lib
     [(''url'', VString ''http://localhost:8080/metrics''),
      (''pipelines'', VSlice [VString ''kafka-to-kafka''])] =
     Inl (Wrap ''failed to decode settings'' (LibError ''mapstructure''))"
  by (simp add: decode_eval)

theorem parseConfig_outcome_witness:
  "''pipelines'' \<in> fst ` set [(''url'', VString ''http://localhost:8080/metrics''),
                              (''pipelines'', VSlice [VString ''kafka-to-kafka''])]
   \<and> list_all (\<lambda>n. ''pipelines'' \<noteq> n \<and> \<not> EqualFold example_lib ''pipelines'' n) configFields
   \<and> isl (parseConfig example_lib
            [(''url'', VString ''http://localhost:8080/metrics''),
             (''pipelines'', VSlice [VString ''kafka-to-kafka''])])
   \<and> set (map fst [(''url'', VString ''http://localhost:8080/metrics'')]) \<subseteq> set configFields
   \<and> url_Parse example_lib ''http://localhost:8080/metrics'' = None
   \<and> fieldValue example_lib [(''url'', VString ''http://localhost:8080/metrics'')]
        ''scrape-interval'' = None
   \<and> parseConfig example_lib [(''url'', VString ''http://localhost:8080/metrics'')] =
       Inr \<lparr>URL = ''http://localhost:8080/metrics'', ScrapeInterval = int Second, Queries = []\<rparr>"
proof -
  let ?bad = "[(''url'', VString ''http://localhost:8080/metrics''),
               (''pipelines'', VSlice [VString ''kafka-to-kafka''])]"
  let ?good = "[(''url'', VString ''http://localhost:8080/metrics'')]"
  have key: "''pipelines'' \<in> fst ` set ?bad" by simp
  have unknown: "list_all (\<lambda>n. ''pipelines'' \<noteq> n \<and> \<not> EqualFold example_lib ''pipelines'' n)
      configFields"
    by (simp add: configFields_def example_lib_def toLower_def)
  have keys: "set (map fst ?good) \<subseteq> set configFields"
    by (simp add: configFields_def)
  have url: "decodeField example_lib ?good ''url'' decodeString [] =
      Inr ''http://localhost:8080/metrics''"
    by (simp add: decodeField_def fieldValue_def)
  have omitted: "fieldValue example_lib ?good ''scrape-interval'' = None"
    by (simp add: fieldValue_def example_lib_def toLower_def)
  have queries: "decodeField example_lib ?good ''queries'' decodeQueries [] = Inr []"
    by (simp add: decodeField_def fieldValue_def example_lib_def toLower_def)
  have parses: "url_Parse example_lib ''http://localhost:8080/metrics'' = None"
    by (simp add: example_lib_def)
  note bad = parseConfig_outcome [where k = "''pipelines''" and settings = ?bad
      and L = example_lib]
  note good = parseConfig_outcome [where settings = ?good and L = example_lib
      and u = "''http://localhost:8080/metrics''" and i = "int Second" and q = "[]"]
  from bad key unknown have fails: "isl (parseConfig example_lib ?bad)"
    by (simp add: list_all_iff)
  from good omitted
  have interval: "decodeField example_lib ?good ''scrape-interval'' decodeDuration (int Second) =
      Inr (int Second)"
    by blast
  from good keys url interval queries parses
  have ok: "parseConfig example_lib ?good =
      Inr \<lparr>URL = ''http://localhost:8080/metrics'', ScrapeInterval = int Second, Queries = []\<rparr>"
    by blast
  from key unknown fails keys parses omitted ok show ?thesis by (intro conjI)
qed

text \<open>
  C9 as stated fails both ways: a bag without \<open>url\<close> is accepted (the empty default is a
  URL that parses), and a bag with the three names only and a valid \<open>url\<close> is rejected when
  a value has the wrong shape, here a list given for the scrape interval.
\<close>

theorem parseConfig_url_not_required:
  "parseConfig example_lib [] = Inr \<lparr>URL = [], ScrapeInterval = int Second, Queries = []\<rparr>
   \<and> parseConfig example_lib
       [(''url'', VString ''http://localhost:8080/metrics''), (''scrape-interval'', VSlice [])] =
     Inl (Wrap ''failed to decode settings'' (LibError ''mapstructure''))"
  by (simp add: decode_eval)

lemma map_of_delegatedSettings_topics:
  "map_of (delegatedSettings L topics settings) ''topics'' = None"
  by (simp add: delegatedSettings_def Let_def AList.update_conv' AList.delete_conv')

lemma map_of_delegatedSettings_queries:
  "map_of (delegatedSettings L topics settings) ''queries'' =
     Some (VMapSlice (concat (map (topicQueries L) topics) @
       (case map_of settings ''queries'' of
          Some (VMapSlice settingsQueries) \<Rightarrow> settingsQueries
        | _ \<Rightarrow> [])))"
  by (simp add: delegatedSettings_def Let_def AList.update_conv' AList.delete_conv'
      foldl_append_concat split: option.splits any.splits)

lemma topicQueries_names:
  "map (\<lambda>q. map_of q ''name'') (topicQueries L topic) =
     [Some (VString (''msg-rate-in-per-second['' @ topic @ '']'')),
      Some (VString (''msg-megabytes-in-per-second['' @ topic @ '']'')),
      Some (VString (''msg-megabytes-out-per-second['' @ topic @ '']''))]"
  by (simp add: topicQueries_def)

lemma length_topicQueries: "length (concat (map (topicQueries L) topics)) = 3 * length topics"
  by (induction topics) (simp_all add: topicQueries_def)

text \<open>
  The delegated settings are as C10 says when the user's queries have the dynamic type
  \<^verbatim>\<open>[]map[string]any\<close>, or when there are none.
\<close>

lemma delegatedSettings_typed_queries:
  assumes "map_of settings ''queries'' = Some (VMapSlice user) \<or>
           (map_of settings ''queries'' = None \<and> user = [])"
  shows "map_of (delegatedSettings L topics settings) ''topics'' = None"
    and "map_of (delegatedSettings L topics settings) ''queries'' =
           Some (VMapSlice (concat (map (topicQueries L) topics) @ user))"
    and "length (concat (map (topicQueries L) topics) @ user) = 3 * length topics + length user"
  using assms
  by (auto simp: map_of_delegatedSettings_topics map_of_delegatedSettings_queries
      length_topicQueries)

text \<open>
  C10. The code departs from the claim for queries read from a YAML file: their dynamic
  type is \<^verbatim>\<open>[]any\<close>, the type assertion to \<^verbatim>\<open>[]map[string]any\<close> fails, and the settings
  delegated hold the three synthesized queries only. The bag is accepted all the same.
\<close>

theorem delegatedSettings_drops_user_queries:
  "map_of kafka_settings ''queries'' = Some (VSlice [VMap example_query])
   \<and> delegatedSettings example_lib [''benchi-in''] kafka_settings =
       [(''url'', VString ''http://localhost:7071/metrics''),
        (''queries'', VMapSlice (topicQueries example_lib ''benchi-in''))]
   \<and> length (topicQueries example_lib ''benchi-in'') = 3
   \<and> example_query \<notin> set (topicQueries example_lib ''benchi-in'')
   \<and> kafka_Configure example_lib (\<lambda>settings. Inr [''benchi-in'']) example_Configure
        kafka_settings = None"
proof -
  have q: "map_of kafka_settings ''queries'' = Some (VSlice [VMap example_query])"
    by (simp add: kafka_settings_def)
  have d: "delegatedSettings example_lib [''benchi-in''] kafka_settings =
       [(''url'', VString ''http://localhost:7071/metrics''),
        (''queries'', VMapSlice (topicQueries example_lib ''benchi-in''))]"
    by (simp add: delegatedSettings_def kafka_settings_def)
  have l: "length (topicQueries example_lib ''benchi-in'') = 3"
    by (simp add: topicQueries_def)
  have n: "example_query \<notin> set (topicQueries example_lib ''benchi-in'')"
    by (simp add: topicQueries_def example_query_def)
  have "parseConfig example_lib
       [(''url'', VString ''http://localhost:7071/metrics''),
        (''queries'', VMapSlice (topicQueries example_lib ''benchi-in''))] =
     Inr \<lparr>URL = ''http://localhost:7071/metrics'', ScrapeInterval = int Second,
          Queries = [\<lparr>QueryConfig.Name = ''msg-rate-in-per-second[benchi-in]'',
                      QueryString = ''rate(kafka_server_messages_in_per_sec_per_topic_total{topic=\"benchi-in\"}[2s])'',
                      Interval = int Second, Unit = ''msg/s''\<rparr>,
                     \<lparr>QueryConfig.Name = ''msg-megabytes-in-per-second[benchi-in]'',
                      QueryString = ''rate(kafka_server_total_bytes_in_per_sec_per_topic{topic=\"benchi-in\"}[2s])/1048576'',
                      Interval = int Second, Unit = ''MB/s''\<rparr>,
                     \<lparr>QueryConfig.Name = ''msg-megabytes-out-per-second[benchi-in]'',
                      QueryString = ''rate(kafka_server_total_bytes_out_per_sec_per_topic{topic=\"benchi-in\"}[2s])/1048576'',
                      Interval = int Second, Unit = ''MB/s''\<rparr>]\<rparr>"
    by (simp add: decode_eval topicQueries_def)
  then have c: "kafka_Configure example_lib (\<lambda>settings. Inr [''benchi-in'']) example_Configure
        kafka_settings = None"
    by (simp add: kafka_Configure_def example_Configure_def d)
  from q d l n c show ?thesis by (intro conjI)
qed

section \<open>Fuel\<close>

text \<open>
  The fuel only bounds the polling of a container. More fuel does not change a result,
  and when the context is cancelled at some time every poll, and so \<open>Run\<close>, ends with
  fuel enough for the seconds until then.
\<close>

lemma waitContainers_more_fuel:
  assumes "waitContainers fuel w client containers t0 = Some res"
  shows "waitContainers (fuel + k) w client containers t0 = Some res"
proof -
  from assms obtain tasks where
    th: "those (map (\<lambda>c. pollContainer fuel w client c t0) containers) = Some tasks"
    by (auto simp: waitContainers_def)
  then have m: "map (\<lambda>c. pollContainer fuel w client c t0) containers = map Some tasks"
    by (simp add: those_Some_iff)
  have "map (\<lambda>c. pollContainer (fuel + k) w client c t0) containers = map Some tasks"
  proof (rule nth_equalityI)
    show "length (map (\<lambda>c. pollContainer (fuel + k) w client c t0) containers) =
        length (map Some tasks)"
      using m by (metis length_map)
  next
    fix i
    assume "i < length (map (\<lambda>c. pollContainer (fuel + k) w client c t0) containers)"
    then have i: "i < length containers" by simp
    with m have "pollContainer fuel w client (containers ! i) t0 = map Some tasks ! i"
      by (metis nth_map)
    moreover from i m have "i < length tasks" by (metis length_map)
    ultimately have "pollContainer fuel w client (containers ! i) t0 = Some (tasks ! i)"
      by simp
    from pollContainer_more_fuel [OF this] i \<open>i < length tasks\<close>
    show "map (\<lambda>c. pollContainer (fuel + k) w client c t0) containers ! i = map Some tasks ! i"
      by simp
  qed
  then have "those (map (\<lambda>c. pollContainer (fuel + k) w client c t0) containers) = Some tasks"
    by (simp add: those_Some_iff)
  with assms th show ?thesis by (simp add: waitContainers_def)
qed

lemma dockerComposeUpWait_more_fuel:
  assumes "dockerComposeUpWait fuel w r files logPath s = Some res"
  shows "dockerComposeUpWait (fuel + k) w r files logPath s = Some res"
proof (cases "Create w logPath")
  case (Some err)
  with assms show ?thesis by (simp add: dockerComposeUpWait_def Let_def)
next
  case None
  define s2 where "s2 = startComposeUp files logPath (logs [Os_Create logPath] s)"
  obtain found t evs where lc: "listContainers 30 w files (clock s2) [] = (found, t, evs)"
    by (cases "listContainers 30 w files (clock s2) []")
  define s3 where "s3 = logs evs (s2\<lparr>clock := t\<rparr>)"
  show ?thesis
  proof (cases found)
    case (Inl err)
    with assms None lc show ?thesis
      by (simp add: dockerComposeUpWait_def Let_def s2_def)
  next
    case (Inr containers)
    show ?thesis
    proof (cases "goroutinePoolDead w s3")
      case True
      with assms None lc Inr show ?thesis
        by (simp add: dockerComposeUpWait_def Let_def s2_def s3_def)
    next
      case False
      with assms None lc Inr obtain res1 where
        wc: "waitContainers fuel w (testRun.DockerClient r) containers (clock s3) = Some res1"
        by (auto simp: dockerComposeUpWait_def Let_def s2_def s3_def)
      from waitContainers_more_fuel [OF wc, of k] wc assms None lc Inr False show ?thesis
        by (simp add: dockerComposeUpWait_def Let_def s2_def s3_def)
    qed
  qed
qed

lemma startServices_more_fuel:
  assumes "startServices name logName msg cfgs fuel w r s = Some res"
  shows "startServices name logName msg cfgs (fuel + k) w r s = Some res"
proof (cases "length (collectDockerComposeFiles cfgs) = 0")
  case True
  with assms show ?thesis by (simp add: startServices_def Let_def)
next
  case False
  with assms obtain res1 where
    "dockerComposeUpWait fuel w r (collectDockerComposeFiles cfgs)
       (filepath_Join w (testRun.OutPath r) logName) (logs [RunningStep name] s) = Some res1"
    by (auto simp: startServices_def Let_def split: option.splits)
  from this dockerComposeUpWait_more_fuel [OF this, of k] assms False show ?thesis
    by (simp add: startServices_def Let_def)
qed

lemma run_steps_more_fuel:
  assumes "\<And>step s res. step \<in> set sts \<Longrightarrow> step fuel w r s = Some res \<Longrightarrow>
             step (fuel + k) w r s = Some res"
    and "run_steps sts fuel w r s = Some res"
  shows "run_steps sts (fuel + k) w r s = Some res"
  using assms
proof (induction sts arbitrary: s)
  case Nil
  then show ?case by simp
next
  case (Cons step rest)
  from Cons.prems(2) obtain out1 s1 where st: "step fuel w r s = Some (out1, s1)"
    by (auto split: option.splits)
  then have st': "step (fuel + k) w r s = Some (out1, s1)"
    using Cons.prems(1) [of step s "(out1, s1)"] by simp
  show ?case
  proof (cases "out1 = Returned None")
    case True
    with Cons.prems(2) st have "run_steps rest fuel w r s1 = Some res" by simp
    then have "run_steps rest (fuel + k) w r s1 = Some res"
    proof (rule Cons.IH [rotated])
      fix st2 s2 res2
      assume "st2 \<in> set rest" and "st2 fuel w r s2 = Some res2"
      then show "st2 (fuel + k) w r s2 = Some res2"
        using Cons.prems(1) [of st2 s2 res2] by simp
    qed
    with True st' show ?thesis by simp
  next
    case False
    with Cons.prems(2) st st' show ?thesis
      by (auto split: outcome.splits option.splits)
  qed
qed

lemma steps_cases:
  fixes step :: "('m, 'st) step"
  assumes "step \<in> set steps"
  obtains "step = infrastructure" | "step = tool"
    | f where "\<And>fuel w r s. step fuel w r s = total (f w r) fuel w r s"
proof -
  from assms consider
      "step = total preInfrastructure" | "step = infrastructure" | "step = total postInfrastructure"
    | "step = total preTool" | "step = tool" | "step = total postTool"
    | "step = total preTest" | "step = (\<lambda>fuel w r. total (test w r) fuel w r)"
    | "step = total postTest"
    by auto
  then show thesis
  proof cases
    case 1
    then show thesis using that(3) [of "\<lambda>w r. preInfrastructure"] by simp
  next
    case 2
    then show thesis by (rule that(1))
  next
    case 3
    then show thesis using that(3) [of "\<lambda>w r. postInfrastructure"] by simp
  next
    case 4
    then show thesis using that(3) [of "\<lambda>w r. preTool"] by simp
  next
    case 5
    then show thesis by (rule that(2))
  next
    case 6
    then show thesis using that(3) [of "\<lambda>w r. postTool"] by simp
  next
    case 7
    then show thesis using that(3) [of "\<lambda>w r. preTest"] by simp
  next
    case 8
    then show thesis using that(3) [of test] by simp
  next
    case 9
    then show thesis using that(3) [of "\<lambda>w r. postTest"] by simp
  qed
qed

lemma steps_more_fuel:
  assumes "run_steps steps fuel w r s = Some res"
  shows "run_steps steps (fuel + k) w r s = Some res"
proof (rule run_steps_more_fuel [OF _ assms])
  fix step :: "('a, 'b) step" and s res
  assume mem: "step \<in> set steps" and run: "step fuel w r s = Some res"
  from mem show "step (fuel + k) w r s = Some res"
  proof (cases rule: steps_cases)
    case 1
    with run show ?thesis
      by (simp add: infrastructure_def startServices_more_fuel)
  next
    case 2
    with run show ?thesis
      by (simp add: tool_def startServices_more_fuel)
  next
    case (3 f)
    with run show ?thesis
      by (simp add: total_def)
  qed
qed

lemma Run_more_fuel:
  assumes "Run fuel w r s = Some res"
  shows "Run (fuel + k) w r s = Some res"
proof (cases "Stat w (testRun.OutPath r) \<or> MkdirAll w (testRun.OutPath r) \<noteq> None")
  case True
  with assms show ?thesis by (auto simp: Run_def Let_def)
next
  case False
  with assms obtain walk where
    "run_steps steps fuel w r
       ((logs [Os_MkdirAll (testRun.OutPath r)] (logs [Os_Stat (testRun.OutPath r)] s))
          \<lparr>goroutinePool := []\<rparr>) = Some walk"
    by (auto simp: Run_def Let_def simp del: run_steps.simps)
  from this steps_more_fuel [OF this, of k] assms False show ?thesis
    by (simp add: Run_def Let_def del: run_steps.simps)
qed

lemma pollContainer_cancelled:
  assumes "Done w = Some cancelled_at"
  shows "cancelled_at \<le> t + k * Second \<Longrightarrow> pollContainer (Suc k) w client c t \<noteq> None"
proof (induction k arbitrary: t)
  case 0
  then have "select_Done_After w t Second = (Some (Err w), max cancelled_at t)"
    using assms by (simp add: select_Done_After_def)
  then show ?case
    by (auto split: sum.splits option.splits)
next
  case (Suc k)
  show ?case
  proof (cases "cancelled_at \<le> t \<or> cancelled_at < t + Second")
    case True
    then have "select_Done_After w t Second = (Some (Err w), max cancelled_at t)"
      using assms by (simp add: select_Done_After_def)
    then show ?thesis
      by (auto split: sum.splits option.splits)
  next
    case False
    then have sel: "select_Done_After w t Second = (None, t + Second)"
      using assms by (simp add: select_Done_After_def)
    from Suc.prems have "cancelled_at \<le> (t + Second) + k * Second" by simp
    from Suc.IH [OF this] obtain res where
      "pollContainer (Suc k) w client c (t + Second) = Some res"
      by auto
    with sel show ?thesis
      by (cases res)
         (auto simp del: pollContainer.simps simp add: pollContainer.simps(2) [of "Suc k"]
          split: sum.splits option.splits)
  qed
qed

lemma those_not_None:
  "(\<And>x. x \<in> set xs \<Longrightarrow> x \<noteq> None) \<Longrightarrow> those xs \<noteq> None"
proof (induction xs)
  case Nil
  show ?case by simp
next
  case (Cons x xs)
  then obtain y ys where "x = Some y" "those xs = Some ys" by force
  then show ?case by simp
qed

lemma waitContainers_cancelled:
  assumes "Done w = Some cancelled_at"
  shows "waitContainers (Suc cancelled_at) w client containers t0 \<noteq> None"
proof -
  have "cancelled_at \<le> t0 + cancelled_at * Second"
    using Second_pos by (metis Suc_leI mult.right_neutral mult_le_mono2 trans_le_add2 One_nat_def)
  then have "pollContainer (Suc cancelled_at) w client c t0 \<noteq> None" for c
    by (rule pollContainer_cancelled [OF assms])
  then have "those (map (\<lambda>c. pollContainer (Suc cancelled_at) w client c t0) containers) \<noteq> None"
    by (intro those_not_None) auto
  then show ?thesis by (auto simp: waitContainers_def)
qed

lemma dockerComposeUpWait_cancelled:
  assumes "Done w = Some cancelled_at"
  shows "dockerComposeUpWait (Suc cancelled_at) w r files logPath s \<noteq> None"
  using waitContainers_cancelled [OF assms]
  by (auto simp: dockerComposeUpWait_def Let_def split: option.splits prod.splits sum.splits)

lemma startServices_cancelled:
  assumes "Done w = Some cancelled_at"
  shows "startServices name logName msg cfgs (Suc cancelled_at) w r s \<noteq> None"
proof -
  obtain out1 s1 where
    "dockerComposeUpWait (Suc cancelled_at) w r (collectDockerComposeFiles cfgs)
       (filepath_Join w (testRun.OutPath r) logName) (logs [RunningStep name] s) = Some (out1, s1)"
    using dockerComposeUpWait_cancelled [OF assms] by fastforce
  then show ?thesis
    by (simp add: startServices_def Let_def split: outcome.splits option.splits)
qed

lemma run_steps_returns:
  assumes "\<And>step s. step \<in> set sts \<Longrightarrow> step fuel w r s \<noteq> None"
  shows "run_steps sts fuel w r s \<noteq> None"
  using assms
proof (induction sts arbitrary: s)
  case Nil
  show ?case by simp
next
  case (Cons step rest)
  from Cons.prems [of step s] obtain out1 s1 where st: "step fuel w r s = Some (out1, s1)"
    by auto
  have "run_steps rest fuel w r s1 \<noteq> None"
    by (rule Cons.IH) (simp add: Cons.prems)
  with st show ?case
    by (auto split: outcome.splits option.splits)
qed

text \<open>
  \<open>Run\<close> returns, or panics, whenever its context is cancelled at some time: the fuel of
  one poll iteration per nanosecond until then is more than enough.
\<close>

lemma Run_returns_when_cancelled:
  assumes "Done w = Some cancelled_at"
  shows "\<exists>out s'. Run (Suc cancelled_at) w r s = Some (out, s')"
proof -
  have "run_steps steps (Suc cancelled_at) w r s2 \<noteq> None" for s2
  proof (rule run_steps_returns)
    fix step :: "('a, 'b) step" and s3
    assume "step \<in> set steps"
    then show "step (Suc cancelled_at) w r s3 \<noteq> None"
    proof (cases rule: steps_cases)
      case 1
      then show ?thesis
        by (simp add: infrastructure_def startServices_cancelled [OF assms])
    next
      case 2
      then show ?thesis
        by (simp add: tool_def startServices_cancelled [OF assms])
    next
      case (3 f)
      then show ?thesis
        by (simp add: total_def split: prod.splits)
    qed
  qed
  then obtain walk s1 where
    "run_steps steps (Suc cancelled_at) w r
       ((logs [Os_MkdirAll (testRun.OutPath r)] (logs [Os_Stat (testRun.OutPath r)] s))
          \<lparr>goroutinePool := []\<rparr>) = Some (walk, s1)"
    by fastforce
  then show ?thesis
    by (cases "deferred_cleanup w walk s1")
       (simp add: Run_def Let_def del: run_steps.simps split: option.splits)
qed

end
